theory Spec2Isabelle
  imports Complex_Main "HOL-Library.Log_Nat"
begin

section \<open>Tal Chess: the opening book, the move scorer and the chess clock\<close>

text \<open>
  A shallow embedding of the move-selection engine (opening book, Tal-style scoring,
  mistake injection) and of the chess clock \<open>TimerManager\<close>.

  Conventions of the model:
  \<^item> Scores and random draws are exact numbers (\<open>real\<close>). The seconds of the clock are
    doubles: every addition and subtraction rounds to the nearest double (\<open>dbl\<close>).
  \<^item> Every call of \<open>Math.random()\<close> is an explicit parameter (a field of \<open>draws\<close>).
  \<^item> The chess rules engine (chess.js) is not part of the repository. A position is a
    record of what the engine reads from it, and applying a move to a probe copy
    (\<open>new Chess(game.fen()); tempGame.move(move)\<close>) is a function parameter \<open>ap\<close>.
  \<^item> \<open>undefined\<close> and \<open>null\<close> are \<open>None\<close>; \<open>NaN\<close> produced by \<open>parseInt\<close> or
    \<open>charCodeAt\<close> is \<open>None\<close> as well, and every comparison with it is false.
\<close>

subsection \<open>Strings\<close>

text \<open>\<open>s.split(' ')\<close>: the pieces between single spaces; never an empty array.\<close>

fun split_sp :: "string \<Rightarrow> string list" where
  "split_sp [] = [[]]"
| "split_sp (c # cs) =
     (if c = CHR '' '' then [] # split_sp cs
      else (case split_sp cs of [] \<Rightarrow> [[c]] | w # ws \<Rightarrow> (c # w) # ws))"

text \<open>\<open>a.join(' ')\<close>.\<close>

fun join_sp :: "string list \<Rightarrow> string" where
  "join_sp [] = []"
| "join_sp [w] = w"
| "join_sp (w # v # ws) = w @ CHR '' '' # join_sp (v # ws)"

text \<open>\<open>s.startsWith(p)\<close>.\<close>

fun startsWith :: "string \<Rightarrow> string \<Rightarrow> bool" where
  "startsWith s [] = True"
| "startsWith [] (p # ps) = False"
| "startsWith (c # cs) (p # ps) = (c = p \<and> startsWith cs ps)"

text \<open>\<open>s.includes(c)\<close> for a one-character needle.\<close>

definition includes_char :: "string \<Rightarrow> char \<Rightarrow> bool" where
  "includes_char s c = (c \<in> set s)"

text \<open>\<open>xs[i]\<close>: reading outside the array (or the string) gives \<open>undefined\<close>.\<close>

definition js_index :: "'a list \<Rightarrow> int \<Rightarrow> 'a option" where
  "js_index xs i = (if 0 \<le> i \<and> i < int (length xs) then Some (xs ! nat i) else None)"

text \<open>
  \<open>parseInt(c)\<close> of a one-character string: a decimal digit gives its value, anything
  else (and \<open>undefined\<close>) gives \<open>NaN\<close>.
\<close>

definition decimal_digits :: "(char \<times> int) list" where
  "decimal_digits = zip ''0123456789'' [0, 1, 2, 3, 4, 5, 6, 7, 8, 9]"

definition parseInt_char :: "char option \<Rightarrow> int option" where
  "parseInt_char co = (case co of None \<Rightarrow> None | Some c \<Rightarrow> map_of decimal_digits c)"

text \<open>\<open>s.charCodeAt(i)\<close>: \<open>NaN\<close> outside the string.\<close>

definition charCodeAt :: "string \<Rightarrow> int \<Rightarrow> int option" where
  "charCodeAt s i = map_option of_char (js_index s i)"

subsection \<open>Property lookup\<close>

text \<open>
  \<open>obj[key]\<close> on an object literal: an own property, a property inherited from
  \<open>Object.prototype\<close> (always a function or an object, hence truthy, and not one of the
  literal's values), or none (\<open>undefined\<close>). The names are those of the standard
  \<open>Object.prototype\<close>.
\<close>

datatype 'a property = Own 'a | Inherited | Absent

definition Object_prototype_names :: "string list" where
  "Object_prototype_names =
     [''constructor'', ''__defineGetter__'', ''__defineSetter__'', ''hasOwnProperty'',
      ''__lookupGetter__'', ''__lookupSetter__'', ''isPrototypeOf'',
      ''propertyIsEnumerable'', ''toString'', ''valueOf'', ''__proto__'',
      ''toLocaleString'']"

subsection \<open>The opening book (part_000)\<close>

text \<open>
  An object literal keeps its string keys in insertion order; a key written twice keeps
  the position of its first occurrence and the value of its last one. \<open>object_literal\<close>
  builds the entry list that \<open>Object.entries\<close> returns. (The book's keys are not
  integer-like, so no key is moved to the front.)
\<close>

fun obj_put :: "('k \<times> 'v) list \<Rightarrow> 'k \<Rightarrow> 'v \<Rightarrow> ('k \<times> 'v) list" where
  "obj_put [] k v = [(k, v)]"
| "obj_put ((k', v') # es) k v =
     (if k' = k then (k', v) # es else (k', v') # obj_put es k v)"

definition object_literal :: "('k \<times> 'v) list \<Rightarrow> ('k \<times> 'v) list" where
  "object_literal ps = foldl (\<lambda>obj (k, v). obj_put obj k v) [] ps"

text \<open>The two tables of \<open>TAL_OPENINGS\<close>, entry by entry in the order of the source.\<close>

definition TAL_OPENINGS_white_literal :: "(string \<times> string list) list" where
  "TAL_OPENINGS_white_literal = [
     (''rnbqkbnr/pppppppp/8/8/8/8/PPPPPPPP/RNBQKBNR w KQkq -'',
        [''e2e4'']),
     (''rnbqkbnr/pp1ppppp/8/2p5/4P3/8/PPPP1PPP/RNBQKBNR w KQkq -'',
        [''g1f3'']),
     (''rnbqkbnr/pp2pppp/3p4/2p5/4P3/5N2/PPPP1PPP/RNBQKB1R w KQkq -'',
        [''d2d4'']),
     (''r1bqkbnr/pp1ppppp/2n5/2p5/4P3/5N2/PPPP1PPP/RNBQKB1R w KQkq -'',
        [''d2d4'']),
     (''rnbqkbnr/pp1p1ppp/4p3/2p5/4P3/5N2/PPPP1PPP/RNBQKB1R w KQkq -'',
        [''d2d4'']),
     (''rnbqkbnr/pp2pppp/3p4/8/3pP3/5N2/PPP2PPP/RNBQKB1R w KQkq -'',
        [''f3d4'']),
     (''rnbqkb1r/pp2pppp/3p1n2/8/3NP3/8/PPP2PPP/RNBQKB1R w KQkq -'',
        [''b1c3'']),
     (''rnbqkb1r/1p2pppp/p2p1n2/8/3NP3/2N5/PPP2PPP/R1BQKB1R w KQkq -'',
        [''c1g5'', ''c1e3'', ''f2f3'']),
     (''rnbqkb1r/pp2pp1p/3p1np1/8/3NP3/2N5/PPP2PPP/R1BQKB1R w KQkq -'',
        [''c1e3'', ''f2f3'']),
     (''rnbqkb1r/pp3ppp/3ppn2/8/3NP3/2N5/PPP2PPP/R1BQKB1R w KQkq -'',
        [''g2g4'', ''c1e3'']),
     (''rnbqkbnr/pppp1ppp/8/4p3/4P3/8/PPPP1PPP/RNBQKBNR w KQkq -'',
        [''g1f3'', ''f2f4'']),
     (''rnbqkbnr/pppp1ppp/8/4p3/4PP2/8/PPPP2PP/RNBQKBNR b KQkq -'',
        [''e5f4'']),
     (''rnbqkbnr/pppp1ppp/8/8/4Pp2/8/PPPP2PP/RNBQKBNR w KQkq -'',
        [''g1f3'']),
     (''r1bqkbnr/pppp1ppp/2n5/4p3/4P3/5N2/PPPP1PPP/RNBQKB1R w KQkq -'',
        [''f1c4'', ''d2d4'']),
     (''r1bqkbnr/pppp1ppp/2n5/4p3/2B1P3/5N2/PPPP1PPP/RNBQK2R b KQkq -'',
        [''f1c5'', ''g8f6'']),
     (''r1bqkbnr/pppp1ppp/2n5/4p3/3PP3/5N2/PPP2PPP/RNBQKB1R b KQkq -'',
        [''e5d4'']),
     (''rnbqkbnr/pppp1ppp/4p3/8/4P3/8/PPPP1PPP/RNBQKBNR w KQkq -'',
        [''d2d4'']),
     (''rnbqkbnr/ppp2ppp/4p3/3p4/3PP3/8/PPP2PPP/RNBQKBNR w KQkq -'',
        [''b1c3'', ''e4e5'']),
     (''rnbqkbnr/ppp2ppp/4p3/3pP3/3P4/8/PPP2PPP/RNBQKBNR b KQkq -'',
        [''c7c5'']),
     (''rnbqkbnr/ppp2ppp/4p3/3p4/3PP3/2N5/PPP2PPP/R1BQKBNR b KQkq -'',
        [''g8f6'', ''d5e4'']),
     (''rnbqkbnr/pp1ppppp/2p5/8/4P3/8/PPPP1PPP/RNBQKBNR w KQkq -'',
        [''d2d4'']),
     (''rnbqkbnr/pp2pppp/2p5/3p4/3PP3/8/PPP2PPP/RNBQKBNR w KQkq -'',
        [''b1c3'', ''e4e5'']),
     (''rnbqkbnr/pp2pppp/2p5/3pP3/3P4/8/PPP2PPP/RNBQKBNR b KQkq -'',
        [''c8f5'']),
     (''rnbqkbnr/ppp1pppp/3p4/8/4P3/8/PPPP1PPP/RNBQKBNR w KQkq -'',
        [''d2d4'']),
     (''rnbqkb1r/ppp1pppp/3p1n2/8/3PP3/8/PPP2PPP/RNBQKBNR w KQkq -'',
        [''b1c3'']),
     (''rnbqkb1r/ppp1pppp/3p1n2/8/3PP3/2N5/PPP2PPP/R1BQKBNR b KQkq -'',
        [''g7g6'']),
     (''rnbqkb1r/ppp1pp1p/3p1np1/8/3PP3/2N5/PPP2PPP/R1BQKBNR w KQkq -'',
        [''f2f4'']),
     (''rnbqkb1r/pppppppp/5n2/8/4P3/8/PPPP1PPP/RNBQKBNR w KQkq -'',
        [''e4e5'']),
     (''rnbqkb1r/pppppppp/8/3nP3/8/8/PPPP1PPP/RNBQKBNR w KQkq -'',
        [''d2d4''])
   ]"

definition TAL_OPENINGS_black_literal :: "(string \<times> string list) list" where
  "TAL_OPENINGS_black_literal = [
     (''rnbqkbnr/pppppppp/8/8/4P3/8/PPPP1PPP/RNBQKBNR b KQkq -'',
        [''c7c5'']),
     (''rnbqkbnr/pp1ppppp/8/2p5/4P3/5N2/PPPP1PPP/RNBQKB1R b KQkq -'',
        [''d7d6'']),
     (''rnbqkbnr/pp2pppp/3p4/2p5/3PP3/5N2/PPP2PPP/RNBQKB1R b KQkq -'',
        [''c5d4'']),
     (''rnbqkbnr/pp2pppp/3p4/8/3NP3/8/PPP2PPP/RNBQKB1R b KQkq -'',
        [''g8f6'']),
     (''rnbqkb1r/pp2pppp/3p1n2/8/3NP3/2N5/PPP2PPP/R1BQKB1R b KQkq -'',
        [''a7a6'']),
     (''rnbqkb1r/1p2pppp/p2p1n2/6B1/3NP3/2N5/PPP2PPP/R2QKB1R b KQkq -'',
        [''e7e6'']),
     (''rnbqkb1r/1p2pppp/p2p1n2/8/3NP3/2N1B3/PPP2PPP/R2QKB1R b KQkq -'',
        [''e7e5'', ''e7e6'', ''b8d7'']),
     (''rnbqkb1r/1p2pppp/p2p1n2/8/3NP3/2N5/PPP1BPPP/R1BQK2R b KQkq -'',
        [''e7e5'']),
     (''rnbqkb1r/1p2pppp/p2p1n2/8/3NP3/2N2P2/PPP3PP/R1BQKB1R b KQkq -'',
        [''e7e5'', ''e7e6'']),
     (''rnbqkb1r/1p3ppp/p2ppn2/6B1/3NPP2/2N5/PPP3PP/R2QKB1R b KQkq -'',
        [''d8b6'']),
     (''rnbqkbnr/pppppppp/8/8/3P4/8/PPP1PPPP/RNBQKBNR b KQkq -'',
        [''g8f6'']),
     (''rnbqkb1r/pppppppp/5n2/8/2PP4/8/PP2PPPP/RNBQKBNR b KQkq -'',
        [''g7g6'']),
     (''rnbqkb1r/pppppp1p/5np1/8/2PP4/2N5/PP2PPPP/R1BQKBNR b KQkq -'',
        [''f8g7'']),
     (''rnbqkb1r/pppppp1p/5np1/8/2PPP3/2N5/PP3PPP/R1BQKBNR b KQkq -'',
        [''d7d6'']),
     (''rnbqk2r/ppp1ppbp/3p1np1/8/2PPP3/2N2N2/PP3PPP/R1BQKB1R b KQkq -'',
        [''e8g8'']),
     (''rnbq1rk1/ppp1ppbp/3p1np1/8/2PPP3/2N2N2/PP2BPPP/R1BQK2R b KQkq -'',
        [''e7e5'']),
     (''rnbqk2r/ppp1ppbp/3p1np1/8/2PPP3/2N2P2/PP4PP/R1BQKBNR b KQkq -'',
        [''e8g8'']),
     (''rnbq1rk1/ppp1ppbp/3p1np1/8/2PPP3/2N2P2/PP4PP/R1BQKBNR b KQkq -'',
        [''e7e5'', ''c7c5'']),
     (''rnbqk2r/ppp1ppbp/3p1np1/8/2PPPP2/2N5/PP4PP/R1BQKBNR b KQkq -'',
        [''e8g8'', ''c7c5'']),
     (''rnbq1rk1/ppp1ppbp/3p1np1/8/2PPP3/2N2P2/PP2N1PP/R1BQKB1R b KQkq -'',
        [''e7e5'']),
     (''rnbq1rk1/ppp2pbp/3p1np1/4p3/2PPP3/2N2N2/PP2BPPP/R1BQK2R b KQkq -'',
        [''b8c6'', ''b8d7'']),
     (''rnbqkbnr/pppppppp/8/8/2P5/8/PP1PPPPP/RNBQKBNR b KQkq -'',
        [''e7e5'', ''g8f6'', ''c7c5'']),
     (''rnbqkbnr/pppp1ppp/8/4p3/2P5/2N5/PP1PPPPP/R1BQKBNR b KQkq -'',
        [''g8f6'', ''b8c6'']),
     (''rnbqkbnr/pppppppp/8/8/8/5N2/PPPPPPPP/RNBQKB1R b KQkq -'',
        [''d7d5'', ''g8f6'']),
     (''rnbqkb1r/pppppppp/5n2/8/2PP4/8/PP2PPPP/RNBQKBNR b KQkq -'',
        [''c7c5'', ''g7g6'']),
     (''rnbqkb1r/pp1ppppp/5n2/2pP4/2P5/8/PP2PPPP/RNBQKBNR b KQkq -'',
        [''e7e6'']),
     (''rnbqkb1r/pp1p1ppp/4pn2/2pP4/8/2N5/PP2PPPP/R1BQKBNR b KQkq -'',
        [''d7d6'']),
     (''rnbqkb1r/pp3ppp/3ppn2/2pP4/4P3/2N5/PP3PPP/R1BQKBNR b KQkq -'',
        [''g7g6''])
   ]"

definition TAL_OPENINGS_white :: "(string \<times> string list) list" where
  "TAL_OPENINGS_white = object_literal TAL_OPENINGS_white_literal"

definition TAL_OPENINGS_black :: "(string \<times> string list) list" where
  "TAL_OPENINGS_black = object_literal TAL_OPENINGS_black_literal"

subsection \<open>Difficulty profiles and style weights (difficulty.js)\<close>

text \<open>A profile; the display fields \<open>description\<close> and \<open>icon\<close> are left out.\<close>

record difficulty =
  name :: string
  rating :: nat
  stockfishDepth :: nat
  thinkTime :: real
  talStyleIntensity :: real
  mistakeRate :: real
  sacrificeThreshold :: real

definition beginner :: difficulty where
  "beginner = \<lparr>name = ''Beginner'', rating = 800, stockfishDepth = 3, thinkTime = 500,
     talStyleIntensity = 2 / 10, mistakeRate = 3 / 10, sacrificeThreshold = - 5\<rparr>"

definition intermediate :: difficulty where
  "intermediate = \<lparr>name = ''Intermediate'', rating = 1200, stockfishDepth = 7,
     thinkTime = 800, talStyleIntensity = 4 / 10, mistakeRate = 15 / 100,
     sacrificeThreshold = - 3\<rparr>"

definition advanced :: difficulty where
  "advanced = \<lparr>name = ''Advanced'', rating = 1600, stockfishDepth = 12, thinkTime = 1200,
     talStyleIntensity = 6 / 10, mistakeRate = 5 / 100, sacrificeThreshold = - 2\<rparr>"

definition master :: difficulty where
  "master = \<lparr>name = ''Master'', rating = 2000, stockfishDepth = 18, thinkTime = 2000,
     talStyleIntensity = 8 / 10, mistakeRate = 2 / 100, sacrificeThreshold = - (15 / 10)\<rparr>"

definition legend :: difficulty where
  "legend = \<lparr>name = ''Legend'', rating = 2700, stockfishDepth = 25, thinkTime = 3000,
     talStyleIntensity = 1, mistakeRate = 0, sacrificeThreshold = - 1\<rparr>"

definition DIFFICULTY_LEVELS :: "string \<Rightarrow> difficulty property" where
  "DIFFICULTY_LEVELS level =
     (if level = ''beginner'' then Own beginner
      else if level = ''intermediate'' then Own intermediate
      else if level = ''advanced'' then Own advanced
      else if level = ''master'' then Own master
      else if level = ''legend'' then Own legend
      else if level \<in> set Object_prototype_names then Inherited
      else Absent)"

text \<open>
  \<open>DIFFICULTY_LEVELS[level] || DIFFICULTY_LEVELS.intermediate\<close>: a profile, or the
  inherited value when the name is one of \<open>Object.prototype\<close>.
\<close>

definition getDifficulty :: "string \<Rightarrow> difficulty property" where
  "getDifficulty level =
     (case DIFFICULTY_LEVELS level of
        Absent \<Rightarrow> Own intermediate | Own d \<Rightarrow> Own d | Inherited \<Rightarrow> Inherited)"

text \<open>The entries of \<open>TAL_STYLE_MODIFIERS\<close> that the code reads.\<close>

definition MOD_sacrifice :: real where "MOD_sacrifice = 150"
definition MOD_kingAttack :: real where "MOD_kingAttack = 100"
definition MOD_check :: real where "MOD_check = 80"
definition MOD_centerControl :: real where "MOD_centerControl = 50"
definition MOD_pieceActivity :: real where "MOD_pieceActivity = 40"
definition MOD_complexPosition :: real where "MOD_complexPosition = 60"
definition MOD_passivePiece :: real where "MOD_passivePiece = - 50"

subsection \<open>Moves and positions as the engine reads them\<close>

datatype colour = White | Black

text \<open>The piece symbols \<open>p n b r q k\<close> of the rules engine.\<close>

datatype ptype = Pawn | Knight | Bishop | Rook | Queen | King

text \<open>A verbose move of the rules engine.\<close>

record move =
  m_color :: colour
  m_from :: string
  m_to :: string
  m_piece :: ptype
  m_captured :: "ptype option"
  m_promotion :: "char option"
  m_san :: string

text \<open>
  A position: \<open>g_fen\<close> is \<open>game.fen()\<close>, \<open>g_board r c\<close> is \<open>game.board()[r][c]\<close>,
  \<open>g_history\<close> is \<open>game.history({verbose: true})\<close> (of the same length as
  \<open>game.history()\<close>), \<open>g_moves\<close> is \<open>game.moves({verbose: true})\<close> (of the same
  length as \<open>game.moves()\<close>), and the two flags are \<open>in_checkmate()\<close> and \<open>in_check()\<close>.
\<close>

record game =
  g_fen :: string
  g_turn :: colour
  g_board :: "nat \<Rightarrow> nat \<Rightarrow> (ptype \<times> colour) option"
  g_history :: "move list"
  g_moves :: "move list"
  g_in_checkmate :: bool
  g_in_check :: bool

text \<open>The move descriptor that the engine returns.\<close>

record moveObject =
  mo_from :: string
  mo_to :: string
  mo_promotion :: "char option"

text \<open>One field for each call of \<open>Math.random()\<close> during a selection.\<close>

record draws =
  book_draw :: real
  think_draw :: real
  mistake_draw :: real
  pick_draw :: real

text \<open>
  What a selection does besides returning: the delays it awaited (milliseconds) and the
  moves it passed to \<open>evaluateMove\<close>, in order.
\<close>

record outcome =
  chosen :: "moveObject option"
  delays :: "real list"
  evaluated :: "move list"

datatype error = TypeError

subsection \<open>Style bonus (difficulty.js)\<close>

text \<open>The table \<open>{p: 1, n: 3, b: 3, r: 5, q: 9}\<close> read with \<open>|| 0\<close>.\<close>

fun pawnUnits :: "ptype \<Rightarrow> real" where
  "pawnUnits Pawn = 1"
| "pawnUnits Knight = 3"
| "pawnUnits Bishop = 3"
| "pawnUnits Rook = 5"
| "pawnUnits Queen = 9"
| "pawnUnits King = 0"

text \<open>\<open>pieceValues[x] || 0\<close> for a piece symbol that may be \<open>undefined\<close>.\<close>

definition unitsOf :: "ptype option \<Rightarrow> real" where
  "unitsOf po = (case po of None \<Rightarrow> 0 | Some p \<Rightarrow> pawnUnits p)"

definition findKingSquare :: "game \<Rightarrow> colour \<Rightarrow> string option" where
  "findKingSquare g c =
     (case List.find (\<lambda>(row, col). g_board g row col = Some (King, c))
             (List.product [0..<8] [0..<8]) of
        None \<Rightarrow> None
      | Some (row, col) \<Rightarrow> Some [''abcdefgh'' ! col, ''0123456789'' ! (8 - row)])"

text \<open>
  The squares of the board as the rules engine writes them: a file letter \<open>a\<close> to \<open>h\<close>
  and a rank digit \<open>1\<close> to \<open>8\<close>.
\<close>

definition on_board :: "string \<Rightarrow> bool" where
  "on_board sq =
     (length sq = 2 \<and> sq ! 0 \<in> set ''abcdefgh'' \<and> sq ! 1 \<in> set ''12345678'')"

text \<open>Manhattan distance; \<open>None\<close> is \<open>NaN\<close>.\<close>

definition squareDistance :: "string \<Rightarrow> string \<Rightarrow> int option" where
  "squareDistance sq1 sq2 =
     (case (charCodeAt sq1 0, parseInt_char (js_index sq1 1),
            charCodeAt sq2 0, parseInt_char (js_index sq2 1)) of
        (Some f1, Some r1, Some f2, Some r2) \<Rightarrow>
          Some (\<bar>(f1 - 97) - (f2 - 97)\<bar> + \<bar>(r1 - 1) - (r2 - 1)\<bar>)
      | _ \<Rightarrow> None)"

text \<open>\<open>a < b\<close> and \<open>a <= b\<close> on numbers that may be \<open>NaN\<close>.\<close>

definition nan_less :: "int option \<Rightarrow> int option \<Rightarrow> bool" where
  "nan_less a b = (case (a, b) of (Some x, Some y) \<Rightarrow> x < y | _ \<Rightarrow> False)"

definition nan_le :: "int option \<Rightarrow> int option \<Rightarrow> bool" where
  "nan_le a b = (case (a, b) of (Some x, Some y) \<Rightarrow> x \<le> y | _ \<Rightarrow> False)"

text \<open>The six terms of \<open>calculateTalStyleBonus\<close>, in the order of the source.\<close>

definition tal_sacrifice :: "difficulty \<Rightarrow> move \<Rightarrow> real" where
  "tal_sacrifice d m =
     (if m_captured m \<noteq> None
      then (let capturedValue = unitsOf (m_captured m);
                movingValue = unitsOf (Some (m_piece m))
            in if movingValue > capturedValue
               then MOD_sacrifice * talStyleIntensity d else 0)
      else 0)"

definition tal_check :: "difficulty \<Rightarrow> move \<Rightarrow> real" where
  "tal_check d m =
     (if m_san m \<noteq> [] \<and> includes_char (m_san m) CHR ''+''
      then MOD_check * talStyleIntensity d else 0)"

definition tal_center :: "difficulty \<Rightarrow> move \<Rightarrow> real" where
  "tal_center d m =
     (if m_piece m = Pawn
      then (if js_index (m_to m) 0 \<in> {Some CHR ''d'', Some CHR ''e''}
            then MOD_centerControl * talStyleIntensity d else 0)
      else 0)"

definition tal_development :: "difficulty \<Rightarrow> move \<Rightarrow> game \<Rightarrow> real" where
  "tal_development d m g =
     (if length (g_history g) < 20
      then (if m_piece m \<in> {Knight, Bishop} \<and> js_index (m_from m) 1 = Some CHR ''1''
               \<or> js_index (m_from m) 1 = Some CHR ''8''
            then MOD_pieceActivity * talStyleIntensity d else 0)
      else 0)"

definition tal_retreat :: "difficulty \<Rightarrow> move \<Rightarrow> real" where
  "tal_retreat d m =
     (let fromRank = parseInt_char (js_index (m_from m) 1);
          toRank = parseInt_char (js_index (m_to m) 1);
          isWhite = (m_color m = White)
      in if (isWhite \<and> nan_less toRank fromRank) \<or> (\<not> isWhite \<and> nan_less fromRank toRank)
         then (if m_captured m = None then MOD_passivePiece * talStyleIntensity d else 0)
         else 0)"

definition tal_kingApproach :: "difficulty \<Rightarrow> move \<Rightarrow> game \<Rightarrow> real" where
  "tal_kingApproach d m g =
     (case findKingSquare g (if m_color m = White then Black else White) of
        None \<Rightarrow> 0
      | Some enemyKingSquare \<Rightarrow>
          (case (squareDistance (m_from m) enemyKingSquare,
                 squareDistance (m_to m) enemyKingSquare) of
             (Some distBefore, Some distAfter) \<Rightarrow>
               (if distAfter < distBefore
                then MOD_kingAttack * talStyleIntensity d * real_of_int (distBefore - distAfter)
                else 0)
           | _ \<Rightarrow> 0))"

definition calculateTalStyleBonus :: "move \<Rightarrow> game \<Rightarrow> difficulty \<Rightarrow> real" where
  "calculateTalStyleBonus m g d =
     tal_sacrifice d m + tal_check d m + tal_center d m + tal_development d m g
       + tal_retreat d m + tal_kingApproach d m g"

definition isComplexPosition :: "game \<Rightarrow> bool" where
  "isComplexPosition g =
     (let complexity = length (g_moves g);
          isMiddlegame = (length (g_history g) \<ge> 10 \<and> length (g_history g) \<le> 40)
      in complexity > 30 \<and> isMiddlegame)"

definition shouldMakeMistake :: "real \<Rightarrow> difficulty \<Rightarrow> bool" where
  "shouldMakeMistake r d = (r < mistakeRate d)"

subsection \<open>The engine (part_002)\<close>

text \<open>\<open>convertToMoveObject\<close>: UCI text to a move descriptor, \<open>null\<close> when too short.\<close>

definition convertToMoveObject :: "string option \<Rightarrow> moveObject option" where
  "convertToMoveObject uo =
     (case uo of
        None \<Rightarrow> None
      | Some uci \<Rightarrow>
          (if length uci < 4 then None
           else Some \<lparr>mo_from = take 2 uci, mo_to = take 2 (drop 2 uci),
                       mo_promotion = (if length uci > 4 then js_index uci 4 else None)\<rparr>))"

text \<open>\<open>fen.split(' ').slice(0, 4).join(' ')\<close>.\<close>

definition first4 :: "string \<Rightarrow> string" where
  "first4 fen = join_sp (take 4 (split_sp fen))"

text \<open>The loop of \<open>getOpeningBookMove\<close> over \<open>Object.entries(book)\<close>.\<close>

fun bookScan :: "real \<Rightarrow> string \<Rightarrow> (string \<times> string list) list \<Rightarrow> moveObject option" where
  "bookScan r simpleFen [] = None"
| "bookScan r simpleFen ((position, moves) # rest) =
     (if startsWith simpleFen (first4 position)
      then convertToMoveObject (js_index moves \<lfloor>r * real (length moves)\<rfloor>)
      else bookScan r simpleFen rest)"

text \<open>\<open>color === 'white' ? TAL_OPENINGS.white : TAL_OPENINGS.black\<close>.\<close>

definition bookFor :: "string \<Rightarrow> (string \<times> string list) list" where
  "bookFor color = (if color = ''white'' then TAL_OPENINGS_white else TAL_OPENINGS_black)"

definition getOpeningBookMove :: "real \<Rightarrow> string \<Rightarrow> string \<Rightarrow> moveObject option" where
  "getOpeningBookMove r fen color =
     (let simpleFen = first4 fen;
          book = bookFor color
      in bookScan r simpleFen book)"

text \<open>\<open>simulateThinking\<close>: the delay it waits for, in milliseconds.\<close>

definition simulateThinking :: "difficulty \<Rightarrow> real \<Rightarrow> real" where
  "simulateThinking d r =
     (let baseTime = thinkTime d; variance = baseTime * (3 / 10)
      in baseTime + r * variance - variance / 2)"

text \<open>The table \<open>{p: 100, n: 320, b: 330, r: 500, q: 900, k: 0}\<close> of \<open>evaluateMove\<close>.\<close>

fun pieceValues :: "ptype \<Rightarrow> real" where
  "pieceValues Pawn = 100"
| "pieceValues Knight = 320"
| "pieceValues Bishop = 330"
| "pieceValues Rook = 500"
| "pieceValues Queen = 900"
| "pieceValues King = 0"

text \<open>
  The replies counted by \<open>evaluateSacrifice\<close>: the legal moves after the move whose SAN
  contains \<open>+\<close> or that capture.
\<close>

definition attackMoves :: "(game \<Rightarrow> move \<Rightarrow> game) \<Rightarrow> game \<Rightarrow> move \<Rightarrow> move list" where
  "attackMoves ap g m =
     (let tempGame = ap g m
      in filter (\<lambda>r. includes_char (m_san r) CHR ''+'' \<or> m_captured r \<noteq> None)
           (g_moves tempGame))"

text \<open>
  Following the claim's words: the checking or capturing replies, a reply being
  checking when the side to move is in check after it (a mating reply is).
\<close>

definition claimed_attackMoves :: "(game \<Rightarrow> move \<Rightarrow> game) \<Rightarrow> game \<Rightarrow> move \<Rightarrow> move list" where
  "claimed_attackMoves ap g m =
     (let tempGame = ap g m
      in filter (\<lambda>r. g_in_check (ap tempGame r) \<or> m_captured r \<noteq> None) (g_moves tempGame))"

definition evaluateSacrifice :: "difficulty \<Rightarrow> (game \<Rightarrow> move \<Rightarrow> game) \<Rightarrow> move \<Rightarrow> game \<Rightarrow> real" where
  "evaluateSacrifice d ap m g =
     (let movingPieceValue = unitsOf (Some (m_piece m));
          capturedValue = unitsOf (m_captured m)
      in if movingPieceValue > capturedValue
         then (let materialLoss = movingPieceValue - capturedValue
               in (if length (attackMoves ap g m) > 2
                   then (100 * materialLoss) * talStyleIntensity d else 0)
                  + (if materialLoss \<le> \<bar>sacrificeThreshold d\<bar>
                     then 50 * talStyleIntensity d else 0))
         else 0)"

definition evaluateKingAttack :: "difficulty \<Rightarrow> move \<Rightarrow> game \<Rightarrow> real" where
  "evaluateKingAttack d m g =
     (let talColor = g_turn g;
          enemyColor = (if talColor = White then Black else White)
      in case findKingSquare g enemyColor of
           None \<Rightarrow> 0
         | Some enemyKingSquare \<Rightarrow>
             (let distBefore = squareDistance (m_from m) enemyKingSquare;
                  distAfter = squareDistance (m_to m) enemyKingSquare
              in (case (distBefore, distAfter) of
                    (Some b, Some a) \<Rightarrow>
                      (if a < b then real_of_int (b - a) * 20 * talStyleIntensity d else 0)
                  | _ \<Rightarrow> 0)
                 + (if nan_le distAfter (Some 3) then 30 * talStyleIntensity d else 0)))"

definition centralSquares :: "string list" where
  "centralSquares = [''d4'', ''d5'', ''e4'', ''e5'', ''c4'', ''c5'', ''f4'', ''f5'']"

definition evaluatePieceActivity :: "move \<Rightarrow> game \<Rightarrow> real" where
  "evaluatePieceActivity m g =
     (let isWhite = (m_color m = White);
          backRank = (if isWhite then CHR ''1'' else CHR ''8'')
      in (if m_to m \<in> set centralSquares then 25 else 0)
         + (if js_index (m_from m) 1 = Some backRank \<and> m_piece m \<noteq> King then 20 else 0)
         + (if length (g_history g) < 10
            then (if \<exists>h \<in> set (g_history g). m_from h = m_from m \<or> m_to h = m_from m
                  then - 15 else 0)
            else 0))"

text \<open>The complexity term of \<open>evaluateMove\<close> (lines 157-160).\<close>

definition complexityTerm :: "difficulty \<Rightarrow> game \<Rightarrow> real" where
  "complexityTerm d g =
     (if isComplexPosition g then MOD_complexPosition * talStyleIntensity d else 0)"

text \<open>The checkmate-or-check term of \<open>evaluateMove\<close> (lines 143-150).\<close>

definition mateTerm :: "(game \<Rightarrow> move \<Rightarrow> game) \<Rightarrow> move \<Rightarrow> game \<Rightarrow> real" where
  "mateTerm ap m g =
     (let tempGame = ap g m
      in if g_in_checkmate tempGame then 100000
         else if g_in_check tempGame then MOD_check else 0)"

text \<open>The capture term of \<open>evaluateMove\<close> (lines 134-137).\<close>

definition captureTerm :: "move \<Rightarrow> real" where
  "captureTerm m =
     (case m_captured m of None \<Rightarrow> 0 | Some cap \<Rightarrow> pieceValues cap * (15 / 10))"

definition evaluateMove :: "difficulty \<Rightarrow> (game \<Rightarrow> move \<Rightarrow> game) \<Rightarrow> move \<Rightarrow> game \<Rightarrow> real" where
  "evaluateMove d ap m g =
     captureTerm m
     + calculateTalStyleBonus m g d
     + mateTerm ap m g
     + (if m_captured m \<noteq> None then evaluateSacrifice d ap m g else 0)
     + complexityTerm d g
     + evaluateKingAttack d m g
     + evaluatePieceActivity m g"

definition getRandomMove :: "real \<Rightarrow> move list \<Rightarrow> error + moveObject" where
  "getRandomMove r moves =
     (case js_index moves \<lfloor>r * real (length moves)\<rfloor> of
        None \<Rightarrow> Inl TypeError
      | Some randomMove \<Rightarrow>
          Inr \<lparr>mo_from = m_from randomMove, mo_to = m_to randomMove,
               mo_promotion = m_promotion randomMove\<rparr>)"

text \<open>
  \<open>scoredMoves.sort((a, b) => b.score - a.score)\<close>: descending by score, and stable
  (elements of equal score keep their order).
\<close>

definition sortScored :: "(move \<times> real) list \<Rightarrow> (move \<times> real) list" where
  "sortScored sms = sort_key (\<lambda>sm. - snd sm) sms"

definition scoreAll :: "difficulty \<Rightarrow> (game \<Rightarrow> move \<Rightarrow> game) \<Rightarrow> game \<Rightarrow> move list \<Rightarrow> (move \<times> real) list" where
  "scoreAll d ap g moves = map (\<lambda>m. (m, evaluateMove d ap m g)) moves"

definition topMoves :: "difficulty \<Rightarrow> (move \<times> real) list \<Rightarrow> (move \<times> real) list" where
  "topMoves d sorted_moves =
     take (nat (max 1 \<lceil>3 * (1 - talStyleIntensity d * (5 / 10))\<rceil>)) sorted_moves"

text \<open>
  The end of the scored path (lines 109-122): sort, keep the top candidates, pick one with
  the draw. Reading a field of \<open>undefined\<close> raises \<open>TypeError\<close>.
\<close>

definition pickTop :: "difficulty \<Rightarrow> real \<Rightarrow> (move \<times> real) list \<Rightarrow> error + moveObject" where
  "pickTop d r scoredMoves =
     (let top = topMoves d (sortScored scoredMoves)
      in case js_index top \<lfloor>r * real (length top)\<rfloor> of
           None \<Rightarrow> Inl TypeError
         | Some selected \<Rightarrow>
             Inr \<lparr>mo_from = m_from (fst selected), mo_to = m_to (fst selected),
                  mo_promotion = m_promotion (fst selected)\<rparr>)"

text \<open>The scored path of \<open>calculateBestMove\<close> (lines 103-122).\<close>

definition selectScored :: "difficulty \<Rightarrow> (game \<Rightarrow> move \<Rightarrow> game) \<Rightarrow> draws \<Rightarrow> game \<Rightarrow> error + outcome" where
  "selectScored d ap rs g =
     (let moves = g_moves g
      in case pickTop d (pick_draw rs) (scoreAll d ap g moves) of
           Inl e \<Rightarrow> Inl e
         | Inr mo \<Rightarrow>
             Inr \<lparr>chosen = Some mo, delays = [simulateThinking d (think_draw rs)],
                  evaluated = moves\<rparr>)"

definition calculateBestMove :: "difficulty \<Rightarrow> (game \<Rightarrow> move \<Rightarrow> game) \<Rightarrow> draws \<Rightarrow> game \<Rightarrow> error + outcome" where
  "calculateBestMove d ap rs g =
     (if g_moves g = [] then Inr \<lparr>chosen = None, delays = [], evaluated = []\<rparr>
      else if shouldMakeMistake (mistake_draw rs) d
      then (case getRandomMove (pick_draw rs) (g_moves g) of
              Inl e \<Rightarrow> Inl e
            | Inr mo \<Rightarrow> Inr \<lparr>chosen = Some mo, delays = [simulateThinking d (think_draw rs)],
                              evaluated = []\<rparr>)
      else selectScored d ap rs g)"

definition getBestMove :: "difficulty \<Rightarrow> (game \<Rightarrow> move \<Rightarrow> game) \<Rightarrow> draws \<Rightarrow> game \<Rightarrow> string \<Rightarrow> error + outcome" where
  "getBestMove d ap rs g playerColor =
     (let talColor = (if playerColor = ''w'' then ''black'' else ''white'');
          fen = g_fen g
      in case getOpeningBookMove (book_draw rs) fen talColor of
           Some bookMove \<Rightarrow>
             Inr \<lparr>chosen = Some bookMove, delays = [simulateThinking d (think_draw rs)],
                  evaluated = []\<rparr>
         | None \<Rightarrow> calculateBestMove d ap rs g)"

subsection \<open>The chess clock (timer.js)\<close>

text \<open>
  A JavaScript value that the clock computes with: a finite double (kept as the rational
  it denotes), \<open>Infinity\<close>, \<open>-Infinity\<close>, \<open>NaN\<close> or \<open>undefined\<close>. The sign of zero is
  not kept.
\<close>

datatype jsnum = Num rat | PosInf | NegInf | NaN | Undefined

text \<open>
  Rounding to the nearest double, ties to even. \<open>expo x\<close> is the binary exponent of a
  nonzero \<open>x\<close> (the integer part of its logarithm to base 2), \<open>quantum x\<close> the spacing of
  the doubles around it (53 significant bits, exponents from -1022 on, below which the
  spacing stays that of the subnormal numbers), \<open>rne\<close> rounding to the nearest integer with
  ties to even, and \<open>fl x\<close> the nearest multiple of the spacing. \<open>dbl\<close> is the result as
  a value, with overflow to the infinities.
\<close>

definition expo :: "rat \<Rightarrow> int" where
  "expo x =
     (if 1 \<le> \<bar>x\<bar> then int (floorlog 2 (nat \<lfloor>\<bar>x\<bar>\<rfloor>)) - 1
      else - int (floorlog 2 (nat (\<lceil>1 / \<bar>x\<bar>\<rceil> - 1))))"

definition rne :: "rat \<Rightarrow> int" where
  "rne y =
     (let f = \<lfloor>y\<rfloor>; d = y - of_int f
      in if d < 1 / 2 then f else if 1 / 2 < d then f + 1 else if even f then f else f + 1)"

definition quantum :: "rat \<Rightarrow> rat" where
  "quantum x = 2 powi (max (expo x) (- 1022) - 52)"

definition fl :: "rat \<Rightarrow> rat" where
  "fl x = (if x = 0 then 0 else of_int (rne (x / quantum x)) * quantum x)"

definition dbl :: "rat \<Rightarrow> jsnum" where
  "dbl x =
     (let v = fl x
      in if 2 ^ 1024 \<le> v then PosInf else if v \<le> - (2 ^ 1024) then NegInf else Num v)"

text \<open>\<open>a + b\<close> and \<open>a - b\<close>; \<open>undefined\<close> converts to \<open>NaN\<close>.\<close>

fun js_add :: "jsnum \<Rightarrow> jsnum \<Rightarrow> jsnum" where
  "js_add (Num a) (Num b) = dbl (a + b)"
| "js_add (Num a) PosInf = PosInf"
| "js_add (Num a) NegInf = NegInf"
| "js_add PosInf (Num b) = PosInf"
| "js_add PosInf PosInf = PosInf"
| "js_add NegInf (Num b) = NegInf"
| "js_add NegInf NegInf = NegInf"
| "js_add a b = NaN"

fun js_sub :: "jsnum \<Rightarrow> jsnum \<Rightarrow> jsnum" where
  "js_sub (Num a) (Num b) = dbl (a - b)"
| "js_sub (Num a) PosInf = NegInf"
| "js_sub (Num a) NegInf = PosInf"
| "js_sub PosInf (Num b) = PosInf"
| "js_sub PosInf NegInf = PosInf"
| "js_sub NegInf (Num b) = NegInf"
| "js_sub NegInf PosInf = NegInf"
| "js_sub a b = NaN"

text \<open>\<open>t <= 0\<close> and \<open>t >= 0\<close>: false of \<open>NaN\<close> and of \<open>undefined\<close>.\<close>

fun js_le0 :: "jsnum \<Rightarrow> bool" where
  "js_le0 (Num a) = (a \<le> 0)"
| "js_le0 NegInf = True"
| "js_le0 t = False"

fun js_ge0 :: "jsnum \<Rightarrow> bool" where
  "js_ge0 (Num a) = (0 \<le> a)"
| "js_ge0 PosInf = True"
| "js_ge0 t = False"

text \<open>The literal \<open>0.1\<close>: the double nearest to one tenth.\<close>

definition tenth :: jsnum where
  "tenth = dbl (1 / 10)"

record timeControl =
  tc_name :: string
  tc_time :: jsnum
  tc_increment :: jsnum
  tc_description :: string

definition tc_bullet :: timeControl where
  "tc_bullet = \<lparr>tc_name = ''Bullet'', tc_time = Num 180, tc_increment = Num 0,
     tc_description = ''3 min''\<rparr>"

definition tc_blitz :: timeControl where
  "tc_blitz = \<lparr>tc_name = ''Blitz'', tc_time = Num 300, tc_increment = Num 0,
     tc_description = ''5 min''\<rparr>"

definition tc_rapid :: timeControl where
  "tc_rapid = \<lparr>tc_name = ''Rapid'', tc_time = Num 600, tc_increment = Num 0,
     tc_description = ''10 min''\<rparr>"

definition tc_classical :: timeControl where
  "tc_classical = \<lparr>tc_name = ''Classical'', tc_time = Num 900, tc_increment = Num 10,
     tc_description = ''15+10''\<rparr>"

definition tc_unlimited :: timeControl where
  "tc_unlimited = \<lparr>tc_name = ''Unlimited'', tc_time = PosInf, tc_increment = Num 0,
     tc_description = ''No limit''\<rparr>"

text \<open>
  \<open>TIME_CONTROLS[key]\<close>: one of the five presets, a value inherited from
  \<open>Object.prototype\<close>, or \<open>undefined\<close>.
\<close>

definition TIME_CONTROLS :: "string \<Rightarrow> timeControl property" where
  "TIME_CONTROLS key =
     (if key = ''bullet'' then Own tc_bullet
      else if key = ''blitz'' then Own tc_blitz
      else if key = ''rapid'' then Own tc_rapid
      else if key = ''classical'' then Own tc_classical
      else if key = ''unlimited'' then Own tc_unlimited
      else if key \<in> set Object_prototype_names then Inherited
      else Absent)"

text \<open>
  \<open>control.time\<close> and \<open>control.increment\<close>: the inherited values (functions, and
  \<open>Object.prototype\<close> itself) have neither property.
\<close>

definition control_time :: "timeControl property \<Rightarrow> jsnum" where
  "control_time c = (case c of Own tc \<Rightarrow> tc_time tc | Inherited \<Rightarrow> Undefined | Absent \<Rightarrow> Undefined)"

definition control_increment :: "timeControl property \<Rightarrow> jsnum" where
  "control_increment c =
     (case c of Own tc \<Rightarrow> tc_increment tc | Inherited \<Rightarrow> Undefined | Absent \<Rightarrow> Undefined)"

text \<open>
  The two sides \<open>'player'\<close> and \<open>'opponent'\<close>; \<open>activeTimer\<close> is one of them or \<open>null\<close>.
  Other side identifiers are excluded by the type.
\<close>

datatype side = Player | Opponent

text \<open>An invocation of a registered callback, with its arguments.\<close>

datatype event = TimeoutCall side | TickCall jsnum jsnum "side option"

text \<open>
  The fields of \<open>TimerManager\<close>. \<open>intervalId\<close> tells whether the 100 ms interval is
  installed (every \<open>setInterval\<close> of the class is preceded by \<open>stopInterval\<close>, so there is
  at most one); the two callback fields tell whether a callback is registered; \<open>calls\<close>
  records the callback invocations, oldest first. \<open>updateDisplay\<close> only writes to the
  page and is left out.
\<close>

record timer =
  playerTime :: jsnum
  opponentTime :: jsnum
  increment :: jsnum
  activeTimer :: "side option"
  intervalId :: bool
  isPaused :: bool
  onTimeoutCallback :: bool
  onTickCallback :: bool
  currentTimeControl :: string
  calls :: "event list"

text \<open>The constructor.\<close>

definition new_TimerManager :: timer where
  "new_TimerManager =
     \<lparr>playerTime = Num 0, opponentTime = Num 0, increment = Num 0, activeTimer = None,
      intervalId = False, isPaused = True, onTimeoutCallback = False,
      onTickCallback = False, currentTimeControl = ''rapid'', calls = []\<rparr>"

definition stopInterval :: "timer \<Rightarrow> timer" where
  "stopInterval t = (if intervalId t then t\<lparr>intervalId := False\<rparr> else t)"

text \<open>\<open>TIME_CONTROLS[timeControlKey] || TIME_CONTROLS.rapid\<close>, then the fields.\<close>

definition init :: "string \<Rightarrow> timer \<Rightarrow> timer" where
  "init timeControlKey t =
     (let control = (case TIME_CONTROLS timeControlKey of
                       Absent \<Rightarrow> Own tc_rapid | Own c \<Rightarrow> Own c | Inherited \<Rightarrow> Inherited)
      in stopInterval
           (t\<lparr>currentTimeControl := timeControlKey,
              playerTime := control_time control,
              opponentTime := control_time control,
              increment := control_increment control,
              activeTimer := None,
              isPaused := True\<rparr>))"

definition setTimeoutCallback :: "bool \<Rightarrow> timer \<Rightarrow> timer" where
  "setTimeoutCallback registered t = t\<lparr>onTimeoutCallback := registered\<rparr>"

definition setTickCallback :: "bool \<Rightarrow> timer \<Rightarrow> timer" where
  "setTickCallback registered t = t\<lparr>onTickCallback := registered\<rparr>"

definition start :: "side \<Rightarrow> timer \<Rightarrow> timer" where
  "start s t =
     (if currentTimeControl t = ''unlimited'' then t
      else (stopInterval (t\<lparr>activeTimer := Some s, isPaused := False\<rparr>))
             \<lparr>intervalId := True\<rparr>)"

definition pause :: "timer \<Rightarrow> timer" where
  "pause t = stopInterval (t\<lparr>isPaused := True\<rparr>)"

definition resume :: "timer \<Rightarrow> timer" where
  "resume t =
     (if activeTimer t \<noteq> None \<and> currentTimeControl t \<noteq> ''unlimited''
      then (stopInterval (t\<lparr>isPaused := False\<rparr>))\<lparr>intervalId := True\<rparr>
      else t)"

definition switchTimer :: "timer \<Rightarrow> timer" where
  "switchTimer t =
     (if currentTimeControl t = ''unlimited'' then t
      else
        (let t1 = (if activeTimer t = Some Player
                   then t\<lparr>playerTime := js_add (playerTime t) (increment t)\<rparr>
                   else if activeTimer t = Some Opponent
                   then t\<lparr>opponentTime := js_add (opponentTime t) (increment t)\<rparr>
                   else t)
         in t1\<lparr>activeTimer :=
                  (if activeTimer t1 = Some Player then Some Opponent else Some Player)\<rparr>))"

definition handleTimeout :: "side \<Rightarrow> timer \<Rightarrow> timer" where
  "handleTimeout loser t =
     (let t1 = (stopInterval t)\<lparr>isPaused := True\<rparr>
      in if onTimeoutCallback t1 then t1\<lparr>calls := calls t1 @ [TimeoutCall loser]\<rparr> else t1)"

text \<open>The end of \<open>tick\<close>: the per-tick callback, when one is registered.\<close>

definition tickCallback :: "timer \<Rightarrow> timer" where
  "tickCallback t =
     (if onTickCallback t
      then t\<lparr>calls := calls t @ [TickCall (playerTime t) (opponentTime t) (activeTimer t)]\<rparr>
      else t)"

definition tick :: "timer \<Rightarrow> timer" where
  "tick t =
     (if isPaused t \<or> activeTimer t = None then t
      else if activeTimer t = Some Player then
        (let t1 = t\<lparr>playerTime := js_sub (playerTime t) tenth\<rparr>
         in if js_le0 (playerTime t1)
            then handleTimeout Player (t1\<lparr>playerTime := Num 0\<rparr>)
            else tickCallback t1)
      else
        (let t1 = t\<lparr>opponentTime := js_sub (opponentTime t) tenth\<rparr>
         in if js_le0 (opponentTime t1)
            then handleTimeout Opponent (t1\<lparr>opponentTime := Num 0\<rparr>)
            else tickCallback t1))"

definition reset :: "timer \<Rightarrow> timer" where
  "reset t = init (currentTimeControl t) (stopInterval t)"

text \<open>The operations a caller (or the interval) can perform on the clock.\<close>

datatype operation =
    Init string
  | SetTimeoutCallback bool
  | SetTickCallback bool
  | Start side
  | Pause
  | Resume
  | SwitchTimer
  | Tick
  | Reset

fun exec :: "operation \<Rightarrow> timer \<Rightarrow> timer" where
  "exec (Init k) t = init k t"
| "exec (SetTimeoutCallback b) t = setTimeoutCallback b t"
| "exec (SetTickCallback b) t = setTickCallback b t"
| "exec (Start s) t = start s t"
| "exec Pause t = pause t"
| "exec Resume t = resume t"
| "exec SwitchTimer t = switchTimer t"
| "exec Tick t = tick t"
| "exec Reset t = reset t"

text \<open>The states of the clock: the constructed one and whatever operations lead to.\<close>

inductive reachable :: "timer \<Rightarrow> bool" where
  reachable_new: "reachable new_TimerManager"
| reachable_exec: "reachable t \<Longrightarrow> reachable (exec opn t)"

text \<open>
  An operation other than \<open>init\<close> with a property name inherited from
  \<open>Object.prototype\<close>, and the states that such operations lead to.
\<close>

fun plain :: "operation \<Rightarrow> bool" where
  "plain (Init k) = (TIME_CONTROLS k \<noteq> Inherited)"
| "plain opn = True"

inductive reachable_plain :: "timer \<Rightarrow> bool" where
  plain_new: "reachable_plain new_TimerManager"
| plain_exec: "reachable_plain t \<Longrightarrow> plain opn \<Longrightarrow> reachable_plain (exec opn t)"

text \<open>
  The invariant of the clock: no remaining time and no increment is negative (or \<open>NaN\<close>
  or \<open>undefined\<close>), the current time control is not an inherited name, and under the
  unlimited preset the clock is paused with no active side.
\<close>

definition clock_inv :: "timer \<Rightarrow> bool" where
  "clock_inv t =
     (js_ge0 (playerTime t) \<and> js_ge0 (opponentTime t) \<and> js_ge0 (increment t)
      \<and> TIME_CONTROLS (currentTimeControl t) \<noteq> Inherited
      \<and> (currentTimeControl t = ''unlimited'' \<longrightarrow> isPaused t \<and> activeTimer t = None))"

text \<open>
  The blitz scenario: both callbacks registered, the blitz preset, the player's clock
  started. \<open>countdown n\<close> is the player's time after \<open>n\<close> subtractions of \<open>0.1\<close> from
  300, and \<open>blitz_tick_calls n\<close> the calls of the per-tick callback during the first
  \<open>n\<close> ticks.
\<close>

definition blitz_started :: timer where
  "blitz_started =
     start Player (init ''blitz''
       (setTickCallback True (setTimeoutCallback True new_TimerManager)))"

definition countdown :: "nat \<Rightarrow> rat" where
  "countdown n = ((\<lambda>x. fl (x - fl (1 / 10))) ^^ n) 300"

definition blitz_tick_calls :: "nat \<Rightarrow> event list" where
  "blitz_tick_calls n =
     map (\<lambda>k. TickCall (Num (countdown k)) (Num 300) (Some Player)) [1..<Suc n]"

subsection \<open>Concrete inputs\<close>

text \<open>
  The position after 1.e4 as the rules engine serialises it. Its API in this
  repository (\<open>in_checkmate\<close>, \<open>in_check\<close>, \<open>game_over\<close>) is that of chess.js 0.x, which,
  like the FEN standard, records the en-passant target square after every double pawn
  step.
\<close>

definition fen_after_e4 :: string where
  "fen_after_e4 = ''rnbqkbnr/pppppppp/8/8/4P3/8/PPPP1PPP/RNBQKBNR b KQkq e3 0 1''"

text \<open>The same position written with an empty en-passant field.\<close>

definition fen_after_e4_no_ep :: string where
  "fen_after_e4_no_ep = ''rnbqkbnr/pppppppp/8/8/4P3/8/PPPP1PPP/RNBQKBNR b KQkq - 0 1''"

text \<open>A position of which only the listed fields matter to the example at hand.\<close>

definition blank_game :: game where
  "blank_game = \<lparr>g_fen = [], g_turn = White, g_board = (\<lambda>row col. None), g_history = [],
     g_moves = [], g_in_checkmate = False, g_in_check = False\<rparr>"

definition draws_half :: draws where
  "draws_half = \<lparr>book_draw = 1 / 2, think_draw = 1 / 2, mistake_draw = 1 / 2,
     pick_draw = 1 / 2\<rparr>"

text \<open>
  A position with White to move, the kings on g6 and h8 and the white queen on b7, and
  two of its moves: the quiet Kg5 and the mating Qg7. \<open>demo_ap\<close> stands for the rules
  engine on this position: the position after Qg7 is checkmate.
\<close>

definition demo_quiet :: move where
  "demo_quiet = \<lparr>m_color = White, m_from = ''g6'', m_to = ''g5'', m_piece = King,
     m_captured = None, m_promotion = None, m_san = ''Kg5''\<rparr>"

definition demo_mate :: move where
  "demo_mate = \<lparr>m_color = White, m_from = ''b7'', m_to = ''g7'', m_piece = Queen,
     m_captured = None, m_promotion = None, m_san = ''Qg7#''\<rparr>"

definition demo_game :: game where
  "demo_game = \<lparr>g_fen = ''7k/1Q6/6K1/8/8/8/8/8 w - - 0 1'', g_turn = White,
     g_board = (\<lambda>row col. if row = 0 \<and> col = 7 then Some (King, Black)
                            else if row = 1 \<and> col = 1 then Some (Queen, White)
                            else if row = 2 \<and> col = 6 then Some (King, White)
                            else None),
     g_history = [], g_moves = [demo_quiet, demo_mate],
     g_in_checkmate = False, g_in_check = False\<rparr>"

definition demo_ap :: "game \<Rightarrow> move \<Rightarrow> game" where
  "demo_ap g m = blank_game\<lparr>g_turn := Black, g_in_checkmate := (m_to m = ''g7''),
     g_in_check := (m_to m = ''g7'')\<rparr>"

text \<open>
  Captures for the sacrifice term: a queen takes a pawn and a pawn takes a queen. After
  either, \<open>replies_ap\<close> gives the opponent three capturing replies.
\<close>

definition queen_takes_pawn :: move where
  "queen_takes_pawn = \<lparr>m_color = White, m_from = ''d1'', m_to = ''d7'', m_piece = Queen,
     m_captured = Some Pawn, m_promotion = None, m_san = ''Qxd7+''\<rparr>"

definition pawn_takes_queen :: move where
  "pawn_takes_queen = \<lparr>m_color = White, m_from = ''e4'', m_to = ''d5'', m_piece = Pawn,
     m_captured = Some Queen, m_promotion = None, m_san = ''exd5''\<rparr>"

definition recapture :: "string \<Rightarrow> string \<Rightarrow> ptype \<Rightarrow> move" where
  "recapture origin san p = \<lparr>m_color = Black, m_from = origin, m_to = ''d7'', m_piece = p,
     m_captured = Some Queen, m_promotion = None, m_san = san\<rparr>"

definition replies_ap :: "game \<Rightarrow> move \<Rightarrow> game" where
  "replies_ap g m = blank_game\<lparr>g_turn := Black,
     g_moves := [recapture ''e8'' ''Kxd7'' King, recapture ''c8'' ''Bxd7'' Bishop,
                 recapture ''b8'' ''Nxd7'' Knight]\<rparr>"

text \<open>Moves for the development term: a black king leaving e8 and a white queen leaving d1.\<close>

definition king_from_e8 :: move where
  "king_from_e8 = \<lparr>m_color = Black, m_from = ''e8'', m_to = ''e7'', m_piece = King,
     m_captured = None, m_promotion = None, m_san = ''Ke7''\<rparr>"

definition queen_from_d1 :: move where
  "queen_from_d1 = \<lparr>m_color = White, m_from = ''d1'', m_to = ''d2'', m_piece = Queen,
     m_captured = None, m_promotion = None, m_san = ''Qd2''\<rparr>"

text \<open>
  The starting position, and the position after 1.d4 Nf6 2.c4 Ng8 3.Nc3 Nf6 4.Nb1: the
  pawns on c4 and d4 and a knight on f6, Black to move, no en-passant square because the
  last move was a knight's.
\<close>

definition fen_start :: string where
  "fen_start = ''rnbqkbnr/pppppppp/8/8/8/8/PPPPPPPP/RNBQKBNR w KQkq - 0 1''"

definition fen_d4_c4_Nf6 :: string where
  "fen_d4_c4_Nf6 = ''rnbqkb1r/pppppppp/5n2/8/2PP4/8/PP2PPPP/RNBQKBNR b KQkq - 4 4''"

text \<open>
  A position for the sacrifice term. White (king h1, knight d5, pawns g2 and h2) to
  move against Black (king h8, pawns a2, b2 and e7). After the knight takes on e7,
  Black has ten legal replies: two king moves and eight promotions, of which the four
  to a queen or a rook mate on the first rank. None of the ten captures, and the SAN of
  the four mates ends in \<open>#\<close>. \<open>sac_ap\<close> stands for the rules engine on this position
  and on the positions after the replies.
\<close>

definition white_move :: "string \<Rightarrow> string \<Rightarrow> ptype \<Rightarrow> string \<Rightarrow> move" where
  "white_move origin dest p san = \<lparr>m_color = White, m_from = origin, m_to = dest,
     m_piece = p, m_captured = None, m_promotion = None, m_san = san\<rparr>"

definition black_move :: "string \<Rightarrow> string \<Rightarrow> ptype \<Rightarrow> char option \<Rightarrow> string \<Rightarrow> move" where
  "black_move origin dest p promo san = \<lparr>m_color = Black, m_from = origin, m_to = dest,
     m_piece = p, m_captured = None, m_promotion = promo, m_san = san\<rparr>"

definition knight_takes_pawn :: move where
  "knight_takes_pawn = \<lparr>m_color = White, m_from = ''d5'', m_to = ''e7'', m_piece = Knight,
     m_captured = Some Pawn, m_promotion = None, m_san = ''Nxe7''\<rparr>"

definition sac_game :: game where
  "sac_game = \<lparr>g_fen = ''7k/4p3/8/3N4/8/8/pp4PP/7K w - - 0 1'', g_turn = White,
     g_board = (\<lambda>row col. if row = 0 \<and> col = 7 then Some (King, Black)
                            else if row = 1 \<and> col = 4 then Some (Pawn, Black)
                            else if row = 3 \<and> col = 3 then Some (Knight, White)
                            else if row = 6 \<and> (col = 0 \<or> col = 1) then Some (Pawn, Black)
                            else if row = 6 \<and> (col = 6 \<or> col = 7) then Some (Pawn, White)
                            else if row = 7 \<and> col = 7 then Some (King, White)
                            else None),
     g_history = [],
     g_moves = [white_move ''d5'' ''b6'' Knight ''Nb6'', white_move ''d5'' ''c7'' Knight ''Nc7'',
                knight_takes_pawn, white_move ''d5'' ''f6'' Knight ''Nf6'',
                white_move ''d5'' ''f4'' Knight ''Nf4'', white_move ''d5'' ''e3'' Knight ''Ne3'',
                white_move ''d5'' ''c3'' Knight ''Nc3'', white_move ''d5'' ''b4'' Knight ''Nb4'',
                white_move ''g2'' ''g3'' Pawn ''g3'', white_move ''g2'' ''g4'' Pawn ''g4'',
                white_move ''h2'' ''h3'' Pawn ''h3'', white_move ''h2'' ''h4'' Pawn ''h4'',
                white_move ''h1'' ''g1'' King ''Kg1''],
     g_in_checkmate = False, g_in_check = False\<rparr>"

definition sac_replies :: "move list" where
  "sac_replies =
     [black_move ''h8'' ''h7'' King None ''Kh7'', black_move ''h8'' ''g7'' King None ''Kg7'',
      black_move ''a2'' ''a1'' Pawn (Some CHR ''q'') ''a1=Q#'',
      black_move ''a2'' ''a1'' Pawn (Some CHR ''r'') ''a1=R#'',
      black_move ''a2'' ''a1'' Pawn (Some CHR ''b'') ''a1=B'',
      black_move ''a2'' ''a1'' Pawn (Some CHR ''n'') ''a1=N'',
      black_move ''b2'' ''b1'' Pawn (Some CHR ''q'') ''b1=Q#'',
      black_move ''b2'' ''b1'' Pawn (Some CHR ''r'') ''b1=R#'',
      black_move ''b2'' ''b1'' Pawn (Some CHR ''b'') ''b1=B'',
      black_move ''b2'' ''b1'' Pawn (Some CHR ''n'') ''b1=N'']"

definition sac_ap :: "game \<Rightarrow> move \<Rightarrow> game" where
  "sac_ap g m =
     (if m_color m = White
      then blank_game\<lparr>g_fen := ''7k/4N3/8/8/8/8/pp4PP/7K b - - 0 1'', g_turn := Black,
             g_moves := sac_replies\<rparr>
      else blank_game\<lparr>g_turn := White,
             g_in_check := (m_promotion m = Some CHR ''q'' \<or> m_promotion m = Some CHR ''r''),
             g_in_checkmate :=
               (m_promotion m = Some CHR ''q'' \<or> m_promotion m = Some CHR ''r'')\<rparr>)"

section \<open>Properties of the opening book\<close>

lemma obj_put_subset: "set (obj_put es k v) \<subseteq> insert (k, v) (set es)"
  by (induction es k v rule: obj_put.induct) auto

lemma foldl_obj_put_subset:
  "set (foldl (\<lambda>obj (k, v). obj_put obj k v) acc ps) \<subseteq> set acc \<union> set ps"
proof (induction ps arbitrary: acc)
  case Nil
  then show ?case by simp
next
  case (Cons p ps)
  obtain k v where p: "p = (k, v)" by (cases p)
  have "set (foldl (\<lambda>obj (k, v). obj_put obj k v) (obj_put acc k v) ps)
          \<subseteq> set (obj_put acc k v) \<union> set ps"
    by (rule Cons.IH)
  also have "\<dots> \<subseteq> set acc \<union> set (p # ps)"
    using obj_put_subset [of acc k v] p by auto
  finally show ?case by (simp add: p)
qed

lemma object_literal_subset: "set (object_literal ps) \<subseteq> set ps"
  using foldl_obj_put_subset [of "[]" ps] by (simp add: object_literal_def)

lemma white_literal_wf:
  "\<forall>(k, ms) \<in> set TAL_OPENINGS_white_literal.
      first4 k = k \<and> ms \<noteq> [] \<and> (\<forall>u \<in> set ms. length u = 4)"
  by (simp add: TAL_OPENINGS_white_literal_def first4_def)

lemma black_literal_wf:
  "\<forall>(k, ms) \<in> set TAL_OPENINGS_black_literal.
      first4 k = k \<and> ms \<noteq> [] \<and> (\<forall>u \<in> set ms. length u = 4)"
  by (simp add: TAL_OPENINGS_black_literal_def first4_def)

lemma js_index_draw:
  assumes "0 \<le> r" "r < 1" "xs \<noteq> []"
  shows "\<exists>x \<in> set xs. js_index xs \<lfloor>r * real (length xs)\<rfloor> = Some x"
proof -
  have len: "0 < real (length xs)" using assms(3) by simp
  have lo: "0 \<le> \<lfloor>r * real (length xs)\<rfloor>" using assms(1) by simp
  have "r * real (length xs) < real (length xs)"
    using assms(2) len by simp
  then have hi: "\<lfloor>r * real (length xs)\<rfloor> < int (length xs)"
    by (simp add: floor_less_iff)
  from lo hi have "nat \<lfloor>r * real (length xs)\<rfloor> < length xs" by linarith
  then have mem: "xs ! nat \<lfloor>r * real (length xs)\<rfloor> \<in> set xs" by (rule nth_mem)
  have "js_index xs \<lfloor>r * real (length xs)\<rfloor> = Some (xs ! nat \<lfloor>r * real (length xs)\<rfloor>)"
    unfolding js_index_def using lo hi by (simp only: if_True simp_thms)
  with mem show ?thesis by blast
qed

lemma find_mem: "List.find P xs = Some x \<Longrightarrow> x \<in> set xs \<and> P x"
  by (induction xs) (auto split: if_splits)

lemma first4_e4: "first4 fen_after_e4 = ''rnbqkbnr/pppppppp/8/8/4P3/8/PPPP1PPP/RNBQKBNR b KQkq e3''"
  by (simp add: first4_def fen_after_e4_def)

lemma first4_e4_no_ep: "first4 fen_after_e4_no_ep = ''rnbqkbnr/pppppppp/8/8/4P3/8/PPPP1PPP/RNBQKBNR b KQkq -''"
  by (simp add: first4_def fen_after_e4_no_ep_def)

lemma black_literal_no_e3:
  "\<forall>(k, ms) \<in> set TAL_OPENINGS_black_literal. \<not> startsWith (first4 fen_after_e4) (first4 k)"
  unfolding first4_e4 by (simp add: TAL_OPENINGS_black_literal_def first4_def)

lemma bookScan_None:
  "\<forall>(k, ms) \<in> set es. \<not> startsWith s (first4 k) \<Longrightarrow> bookScan r s es = None"
  by (induction r s es rule: bookScan.induct) auto

text \<open>
  The entries of the Black table. The key of the position after 1.d4 Nf6 2.c4 is written
  twice in the source: the entry stays at its first place (the twelfth) and holds the
  moves of the second writing.
\<close>

lemma TAL_OPENINGS_black_entries:
  "TAL_OPENINGS_black = [
     (''rnbqkbnr/pppppppp/8/8/4P3/8/PPPP1PPP/RNBQKBNR b KQkq -'',
        [''c7c5'']),
     (''rnbqkbnr/pp1ppppp/8/2p5/4P3/5N2/PPPP1PPP/RNBQKB1R b KQkq -'',
        [''d7d6'']),
     (''rnbqkbnr/pp2pppp/3p4/2p5/3PP3/5N2/PPP2PPP/RNBQKB1R b KQkq -'',
        [''c5d4'']),
     (''rnbqkbnr/pp2pppp/3p4/8/3NP3/8/PPP2PPP/RNBQKB1R b KQkq -'',
        [''g8f6'']),
     (''rnbqkb1r/pp2pppp/3p1n2/8/3NP3/2N5/PPP2PPP/R1BQKB1R b KQkq -'',
        [''a7a6'']),
     (''rnbqkb1r/1p2pppp/p2p1n2/6B1/3NP3/2N5/PPP2PPP/R2QKB1R b KQkq -'',
        [''e7e6'']),
     (''rnbqkb1r/1p2pppp/p2p1n2/8/3NP3/2N1B3/PPP2PPP/R2QKB1R b KQkq -'',
        [''e7e5'', ''e7e6'', ''b8d7'']),
     (''rnbqkb1r/1p2pppp/p2p1n2/8/3NP3/2N5/PPP1BPPP/R1BQK2R b KQkq -'',
        [''e7e5'']),
     (''rnbqkb1r/1p2pppp/p2p1n2/8/3NP3/2N2P2/PPP3PP/R1BQKB1R b KQkq -'',
        [''e7e5'', ''e7e6'']),
     (''rnbqkb1r/1p3ppp/p2ppn2/6B1/3NPP2/2N5/PPP3PP/R2QKB1R b KQkq -'',
        [''d8b6'']),
     (''rnbqkbnr/pppppppp/8/8/3P4/8/PPP1PPPP/RNBQKBNR b KQkq -'',
        [''g8f6'']),
     (''rnbqkb1r/pppppppp/5n2/8/2PP4/8/PP2PPPP/RNBQKBNR b KQkq -'',
        [''c7c5'', ''g7g6'']),
     (''rnbqkb1r/pppppp1p/5np1/8/2PP4/2N5/PP2PPPP/R1BQKBNR b KQkq -'',
        [''f8g7'']),
     (''rnbqkb1r/pppppp1p/5np1/8/2PPP3/2N5/PP3PPP/R1BQKBNR b KQkq -'',
        [''d7d6'']),
     (''rnbqk2r/ppp1ppbp/3p1np1/8/2PPP3/2N2N2/PP3PPP/R1BQKB1R b KQkq -'',
        [''e8g8'']),
     (''rnbq1rk1/ppp1ppbp/3p1np1/8/2PPP3/2N2N2/PP2BPPP/R1BQK2R b KQkq -'',
        [''e7e5'']),
     (''rnbqk2r/ppp1ppbp/3p1np1/8/2PPP3/2N2P2/PP4PP/R1BQKBNR b KQkq -'',
        [''e8g8'']),
     (''rnbq1rk1/ppp1ppbp/3p1np1/8/2PPP3/2N2P2/PP4PP/R1BQKBNR b KQkq -'',
        [''e7e5'', ''c7c5'']),
     (''rnbqk2r/ppp1ppbp/3p1np1/8/2PPPP2/2N5/PP4PP/R1BQKBNR b KQkq -'',
        [''e8g8'', ''c7c5'']),
     (''rnbq1rk1/ppp1ppbp/3p1np1/8/2PPP3/2N2P2/PP2N1PP/R1BQKB1R b KQkq -'',
        [''e7e5'']),
     (''rnbq1rk1/ppp2pbp/3p1np1/4p3/2PPP3/2N2N2/PP2BPPP/R1BQK2R b KQkq -'',
        [''b8c6'', ''b8d7'']),
     (''rnbqkbnr/pppppppp/8/8/2P5/8/PP1PPPPP/RNBQKBNR b KQkq -'',
        [''e7e5'', ''g8f6'', ''c7c5'']),
     (''rnbqkbnr/pppp1ppp/8/4p3/2P5/2N5/PP1PPPPP/R1BQKBNR b KQkq -'',
        [''g8f6'', ''b8c6'']),
     (''rnbqkbnr/pppppppp/8/8/8/5N2/PPPPPPPP/RNBQKB1R b KQkq -'',
        [''d7d5'', ''g8f6'']),
     (''rnbqkb1r/pp1ppppp/5n2/2pP4/2P5/8/PP2PPPP/RNBQKBNR b KQkq -'',
        [''e7e6'']),
     (''rnbqkb1r/pp1p1ppp/4pn2/2pP4/8/2N5/PP2PPPP/R1BQKBNR b KQkq -'',
        [''d7d6'']),
     (''rnbqkb1r/pp3ppp/3ppn2/2pP4/4P3/2N5/PP3PPP/R1BQKBNR b KQkq -'',
        [''g7g6''])
   ]"
  by (simp add: TAL_OPENINGS_black_def TAL_OPENINGS_black_literal_def object_literal_def)

lemma first4_key_e4:
  "first4 ''rnbqkbnr/pppppppp/8/8/4P3/8/PPPP1PPP/RNBQKBNR b KQkq -'' =
     ''rnbqkbnr/pppppppp/8/8/4P3/8/PPPP1PPP/RNBQKBNR b KQkq -''"
  by (simp add: first4_def)

text \<open>
  Had the rules engine written the en-passant field of the position after 1.e4 as \<open>-\<close>,
  the first entry of the Black table would answer with c7-c5, whatever the draw.
\<close>

lemma book_answers_e4_when_ep_field_empty:
  assumes "0 \<le> r" "r < 1"
  shows "getOpeningBookMove r fen_after_e4_no_ep ''black'' =
           Some \<lparr>mo_from = ''c7'', mo_to = ''c5'', mo_promotion = None\<rparr>"
proof -
  have fl: "\<lfloor>r\<rfloor> = 0" using assms by (simp add: floor_eq_iff)
  have cv: "convertToMoveObject (js_index [''c7c5''] \<lfloor>r * real (length [''c7c5''])\<rfloor>) =
      Some \<lparr>mo_from = ''c7'', mo_to = ''c5'', mo_promotion = None\<rparr>"
    using fl by (simp add: convertToMoveObject_def js_index_def)
  show ?thesis
    unfolding getOpeningBookMove_def Let_def first4_e4_no_ep bookFor_def
      TAL_OPENINGS_black_entries
    by (simp only: bookScan.simps first4_key_e4 startsWith.simps cv simp_thms if_True if_False
        list.inject char.inject)
qed

text \<open>
  Claim C2. After 1.e4, Black to move, selection is said to return the book move c7-c5,
  the key built from the position prefix-matching the stored entry.

  The code keeps the first four fields of the FEN, so the key includes the en-passant
  field. For the position after 1.e4 that field is \<open>e3\<close>, the stored key has \<open>-\<close> there,
  no stored key is a prefix of the queried one, and the lookup returns \<open>null\<close>:
  selection falls through to \<open>calculateBestMove\<close>.
\<close>

theorem book_misses_position_after_e4:
  "first4 fen_after_e4 = ''rnbqkbnr/pppppppp/8/8/4P3/8/PPPP1PPP/RNBQKBNR b KQkq e3''
   \<and> \<not> startsWith (first4 fen_after_e4)
         (first4 ''rnbqkbnr/pppppppp/8/8/4P3/8/PPPP1PPP/RNBQKBNR b KQkq -'')
   \<and> getOpeningBookMove r fen_after_e4 ''black'' = None
   \<and> getBestMove d ap rs (g\<lparr>g_fen := fen_after_e4\<rparr>) ''w'' =
       calculateBestMove d ap rs (g\<lparr>g_fen := fen_after_e4\<rparr>)"
proof -
  have "\<forall>(k, ms) \<in> set TAL_OPENINGS_black. \<not> startsWith (first4 fen_after_e4) (first4 k)"
    using black_literal_no_e3 object_literal_subset [of TAL_OPENINGS_black_literal]
    unfolding TAL_OPENINGS_black_def by blast
  then have miss: "getOpeningBookMove r fen_after_e4 ''black'' = None" for r
    by (simp add: getOpeningBookMove_def bookFor_def bookScan_None)
  have key: "\<not> startsWith (first4 fen_after_e4)
         (first4 ''rnbqkbnr/pppppppp/8/8/4P3/8/PPPP1PPP/RNBQKBNR b KQkq -'')"
    unfolding first4_e4 first4_key_e4 by simp
  show ?thesis
    using miss key first4_e4 by (simp add: getBestMove_def)
qed

subsection \<open>Declarations and entries\<close>

lemma obj_put_keys:
  "map fst (obj_put es k v) = (if k \<in> set (map fst es) then map fst es else map fst es @ [k])"
  by (induction es k v rule: obj_put.induct) auto

lemma map_of_obj_put: "map_of (obj_put es k v) = (map_of es)(k \<mapsto> v)"
  by (induction es k v rule: obj_put.induct) auto

lemma find_append:
  "List.find P (xs @ ys) = (case List.find P xs of None \<Rightarrow> List.find P ys | Some x \<Rightarrow> Some x)"
  by (induction xs) auto

lemma find_skip_member:
  assumes "k \<in> set xs"
  shows "List.find P (xs @ k # ys) = List.find P (xs @ ys)"
proof (cases "List.find P xs")
  case None
  then have "\<not> P k" using assms by (auto simp: find_None_iff)
  then show ?thesis by (simp add: find_append None)
next
  case (Some x)
  then show ?thesis by (simp add: find_append)
qed

lemma foldl_obj_put_keys:
  "List.find P (map fst (foldl (\<lambda>obj (k, v). obj_put obj k v) acc ps)) =
     List.find P (map fst acc @ map fst ps)"
proof (induction ps arbitrary: acc)
  case Nil
  then show ?case by simp
next
  case (Cons p ps)
  obtain k v where p: "p = (k, v)" by (cases p)
  have "List.find P (map fst (foldl (\<lambda>obj (k, v). obj_put obj k v) (obj_put acc k v) ps)) =
          List.find P (map fst (obj_put acc k v) @ map fst ps)"
    by (rule Cons.IH)
  also have "\<dots> = List.find P (map fst acc @ k # map fst ps)"
    by (simp add: obj_put_keys find_skip_member)
  finally show ?case by (simp add: p)
qed

lemma foldl_obj_put_values:
  "map_of (foldl (\<lambda>obj (k, v). obj_put obj k v) acc ps) = map_of (rev ps @ acc)"
proof (induction ps arbitrary: acc)
  case Nil
  then show ?case by simp
next
  case (Cons p ps)
  obtain k v where p: "p = (k, v)" by (cases p)
  have "map_of (foldl (\<lambda>obj (k, v). obj_put obj k v) (obj_put acc k v) ps) =
          map_of (rev ps @ obj_put acc k v)"
    by (rule Cons.IH)
  also have "\<dots> = map_of (rev ps @ (k, v) # acc)"
    by (simp add: map_of_obj_put)
  finally show ?case by (simp add: p)
qed

text \<open>
  The keys of an object literal come in the order of their first declaration, and each
  holds the value of its last declaration.
\<close>

lemma object_literal_keys:
  "List.find P (map fst (object_literal ps)) = List.find P (map fst ps)"
  using foldl_obj_put_keys [of P "[]" ps] by (simp add: object_literal_def)

lemma object_literal_values: "map_of (object_literal ps) = map_of (rev ps)"
  using foldl_obj_put_values [of "[]" ps] by (simp add: object_literal_def)

lemma bookScan_keys:
  "bookScan r s es =
     (case List.find (\<lambda>k. startsWith s (first4 k)) (map fst es) of
        None \<Rightarrow> None
      | Some k \<Rightarrow>
          (case map_of es k of
             None \<Rightarrow> None
           | Some ms \<Rightarrow> convertToMoveObject (js_index ms \<lfloor>r * real (length ms)\<rfloor>)))"
proof (induction r s es rule: bookScan.induct)
  case (1 r simpleFen)
  then show ?case by simp
next
  case (2 r simpleFen position moves rest)
  show ?case
  proof (cases "startsWith simpleFen (first4 position)")
    case True
    then show ?thesis by simp
  next
    case False
    have other: "map_of ((position, moves) # rest) k = map_of rest k"
      if "List.find (\<lambda>k. startsWith simpleFen (first4 k)) (map fst rest) = Some k" for k
    proof -
      have "startsWith simpleFen (first4 k)" using find_mem [OF that] by simp
      then have "k \<noteq> position" using False by auto
      then show ?thesis by simp
    qed
    show ?thesis
    proof (cases "List.find (\<lambda>k. startsWith simpleFen (first4 k)) (map fst rest)")
      case None
      then show ?thesis using False 2 by simp
    next
      case (Some k)
      then show ?thesis using False 2 other [OF Some] by simp
    qed
  qed
qed

lemma literal_wf:
  assumes "(k, ms) \<in> set TAL_OPENINGS_white_literal \<or> (k, ms) \<in> set TAL_OPENINGS_black_literal"
  shows "first4 k = k \<and> ms \<noteq> [] \<and> (\<forall>u \<in> set ms. length u = 4)"
  using assms white_literal_wf black_literal_wf by blast

lemma first4_fen_start:
  "first4 fen_start = ''rnbqkbnr/pppppppp/8/8/8/8/PPPPPPPP/RNBQKBNR w KQkq -''"
  by (simp add: first4_def fen_start_def)

lemma first4_fen_d4_c4_Nf6:
  "first4 fen_d4_c4_Nf6 = ''rnbqkb1r/pppppppp/5n2/8/2PP4/8/PP2PPPP/RNBQKBNR b KQkq -''"
  by (simp add: first4_def fen_d4_c4_Nf6_def)

lemma white_first_key_start:
  "List.find (\<lambda>k. startsWith (first4 fen_start) k) (map fst TAL_OPENINGS_white_literal) =
     Some ''rnbqkbnr/pppppppp/8/8/8/8/PPPPPPPP/RNBQKBNR w KQkq -''"
  unfolding first4_fen_start by (simp add: TAL_OPENINGS_white_literal_def)

lemma white_moves_start:
  "map_of (rev TAL_OPENINGS_white_literal)
     ''rnbqkbnr/pppppppp/8/8/8/8/PPPPPPPP/RNBQKBNR w KQkq -'' = Some [''e2e4'']"
  by (simp add: TAL_OPENINGS_white_literal_def)

lemma black_no_key_start:
  "List.find (\<lambda>k. startsWith (first4 fen_start) k) (map fst TAL_OPENINGS_black_literal) = None"
  unfolding first4_fen_start by (simp add: TAL_OPENINGS_black_literal_def)

lemma black_first_key_d4_c4_Nf6:
  "List.find (\<lambda>k. startsWith (first4 fen_d4_c4_Nf6) k) (map fst TAL_OPENINGS_black_literal) =
     Some ''rnbqkb1r/pppppppp/5n2/8/2PP4/8/PP2PPPP/RNBQKBNR b KQkq -''"
  unfolding first4_fen_d4_c4_Nf6 by (simp add: TAL_OPENINGS_black_literal_def)

lemma black_first_declaration_d4_c4_Nf6:
  "List.find (\<lambda>(k, ms). startsWith (first4 fen_d4_c4_Nf6) k) TAL_OPENINGS_black_literal =
     Some (''rnbqkb1r/pppppppp/5n2/8/2PP4/8/PP2PPPP/RNBQKBNR b KQkq -'', [''g7g6''])"
  unfolding first4_fen_d4_c4_Nf6 by (simp add: TAL_OPENINGS_black_literal_def)

lemma black_moves_d4_c4_Nf6:
  "map_of (rev TAL_OPENINGS_black_literal)
     ''rnbqkb1r/pppppppp/5n2/8/2PP4/8/PP2PPPP/RNBQKBNR b KQkq -'' = Some [''c7c5'', ''g7g6'']"
  by (simp add: TAL_OPENINGS_black_literal_def)

lemma getOpeningBookMove_literals:
  "getOpeningBookMove r fen color =
     (let decls = (if color = ''white'' then TAL_OPENINGS_white_literal
                   else TAL_OPENINGS_black_literal)
      in case List.find (\<lambda>k. startsWith (first4 fen) (first4 k)) (map fst decls) of
           None \<Rightarrow> None
         | Some k \<Rightarrow>
             (case map_of (rev decls) k of
                None \<Rightarrow> None
              | Some ms \<Rightarrow> convertToMoveObject (js_index ms \<lfloor>r * real (length ms)\<rfloor>)))"
proof -
  define decls where "decls = (if color = ''white'' then TAL_OPENINGS_white_literal
                   else TAL_OPENINGS_black_literal)"
  have book: "bookFor color = object_literal decls"
    by (simp add: bookFor_def decls_def TAL_OPENINGS_white_def TAL_OPENINGS_black_def)
  show ?thesis
    unfolding getOpeningBookMove_def Let_def bookScan_keys book object_literal_keys
      object_literal_values decls_def ..
qed

lemma find_first4_literal:
  "List.find (\<lambda>k. startsWith s (first4 k)) (map fst TAL_OPENINGS_white_literal) =
     List.find (\<lambda>k. startsWith s k) (map fst TAL_OPENINGS_white_literal)"
  "List.find (\<lambda>k. startsWith s (first4 k)) (map fst TAL_OPENINGS_black_literal) =
     List.find (\<lambda>k. startsWith s k) (map fst TAL_OPENINGS_black_literal)"
proof -
  have w: "first4 k = k" if "k \<in> set (map fst TAL_OPENINGS_white_literal)" for k
    using that literal_wf by fastforce
  have b: "first4 k = k" if "k \<in> set (map fst TAL_OPENINGS_black_literal)" for k
    using that literal_wf by fastforce
  show "List.find (\<lambda>k. startsWith s (first4 k)) (map fst TAL_OPENINGS_white_literal) =
     List.find (\<lambda>k. startsWith s k) (map fst TAL_OPENINGS_white_literal)"
    by (rule find_cong) (simp_all add: w)
  show "List.find (\<lambda>k. startsWith s (first4 k)) (map fst TAL_OPENINGS_black_literal) =
     List.find (\<lambda>k. startsWith s k) (map fst TAL_OPENINGS_black_literal)"
    by (rule find_cong) (simp_all add: b)
qed

lemma book_d4_c4_Nf6_low_draw:
  "getOpeningBookMove 0 fen_d4_c4_Nf6 ''black'' =
     Some \<lparr>mo_from = ''c7'', mo_to = ''c5'', mo_promotion = None\<rparr>"
  by (simp add: getOpeningBookMove_literals find_first4_literal black_first_key_d4_c4_Nf6
      black_moves_d4_c4_Nf6 js_index_def convertToMoveObject_def)

lemma book_d4_c4_Nf6_half_draw:
  "getOpeningBookMove (1 / 2) fen_d4_c4_Nf6 ''black'' =
     Some \<lparr>mo_from = ''g7'', mo_to = ''g6'', mo_promotion = None\<rparr>"
  by (simp add: getOpeningBookMove_literals find_first4_literal black_first_key_d4_c4_Nf6
      black_moves_d4_c4_Nf6 js_index_def convertToMoveObject_def)

lemma book_start_white:
  "getOpeningBookMove (1 / 2) fen_start ''white'' =
     Some \<lparr>mo_from = ''e2'', mo_to = ''e4'', mo_promotion = None\<rparr>"
  by (simp add: getOpeningBookMove_literals find_first4_literal white_first_key_start
      white_moves_start js_index_def convertToMoveObject_def)

lemma book_start_black: "getOpeningBookMove r fen_start ''black'' = None"
  by (simp add: getOpeningBookMove_literals find_first4_literal black_no_key_start)

text \<open>
  Claim C5 says that the returned move comes from the first entry, in declaration order,
  whose key is a prefix of the queried key. In the Black table the first such
  declaration for the position after 1.d4 Nf6 2.c4 lists only g7-g6; the same key is
  declared again further down with c7-c5 and g7-g6, and with a draw of 0 the code
  returns c7-c5.
\<close>

theorem book_first_declaration_counterexample:
  "List.find (\<lambda>(k, ms). startsWith (first4 fen_d4_c4_Nf6) k) TAL_OPENINGS_black_literal =
     Some (''rnbqkb1r/pppppppp/5n2/8/2PP4/8/PP2PPPP/RNBQKBNR b KQkq -'', [''g7g6''])
   \<and> getOpeningBookMove 0 fen_d4_c4_Nf6 ''black'' =
       Some \<lparr>mo_from = ''c7'', mo_to = ''c5'', mo_promotion = None\<rparr>
   \<and> getBestMove intermediate (\<lambda>g m. g) (draws_half\<lparr>book_draw := 0\<rparr>)
        (blank_game\<lparr>g_fen := fen_d4_c4_Nf6\<rparr>) ''w'' =
       Inr \<lparr>chosen = Some \<lparr>mo_from = ''c7'', mo_to = ''c5'', mo_promotion = None\<rparr>,
            delays = [simulateThinking intermediate (1 / 2)], evaluated = []\<rparr>
   \<and> Some \<lparr>mo_from = ''c7'', mo_to = ''c5'', mo_promotion = None\<rparr>
       \<notin> (\<lambda>u. convertToMoveObject (Some u)) ` set [''g7g6'']"
proof -
  have "getBestMove intermediate (\<lambda>g m. g) (draws_half\<lparr>book_draw := 0\<rparr>)
        (blank_game\<lparr>g_fen := fen_d4_c4_Nf6\<rparr>) ''w'' =
       Inr \<lparr>chosen = Some \<lparr>mo_from = ''c7'', mo_to = ''c5'', mo_promotion = None\<rparr>,
            delays = [simulateThinking intermediate (1 / 2)], evaluated = []\<rparr>"
    by (simp add: getBestMove_def book_d4_c4_Nf6_low_draw draws_half_def)
  moreover have "Some \<lparr>mo_from = ''c7'', mo_to = ''c5'', mo_promotion = None\<rparr>
       \<notin> (\<lambda>u. convertToMoveObject (Some u)) ` set [''g7g6'']"
    by (simp add: convertToMoveObject_def)
  ultimately show ?thesis
    using black_first_declaration_d4_c4_Nf6 book_d4_c4_Nf6_low_draw by simp
qed

text \<open>
  Claim C5, as the code has it. For every position and side, with the draw in \<open>[0, 1)\<close>:
  take the declarations of the table of the side to move for Tal (the Black table when
  the player is White, the White table otherwise). If some declared key is a prefix of
  the queried key (the first four FEN fields), the returned move is one of the moves
  that the last declaration of the first such key lists, and no move is passed to
  \<open>evaluateMove\<close>; if none is, the lookup returns \<open>null\<close> and selection is
  \<open>calculateBestMove\<close>.
\<close>

theorem book_first_key_last_moves:
  assumes "0 \<le> book_draw rs" and "book_draw rs < 1"
  shows "let decls = (if playerColor = ''w'' then TAL_OPENINGS_black_literal
                      else TAL_OPENINGS_white_literal);
             talColor = (if playerColor = ''w'' then ''black'' else ''white'');
             key = first4 (g_fen g)
         in (case List.find (\<lambda>k. startsWith key k) (map fst decls) of
               Some k \<Rightarrow>
                 (\<exists>ms u mo.
                    map_of (rev decls) k = Some ms \<and> u \<in> set ms
                    \<and> convertToMoveObject (Some u) = Some mo
                    \<and> getOpeningBookMove (book_draw rs) (g_fen g) talColor = Some mo
                    \<and> getBestMove d ap rs g playerColor =
                        Inr \<lparr>chosen = Some mo,
                             delays = [simulateThinking d (think_draw rs)],
                             evaluated = []\<rparr>)
             | None \<Rightarrow>
                 getOpeningBookMove (book_draw rs) (g_fen g) talColor = None
                 \<and> getBestMove d ap rs g playerColor = calculateBestMove d ap rs g)"
proof -
  define decls where "decls = (if playerColor = ''w'' then TAL_OPENINGS_black_literal
                      else TAL_OPENINGS_white_literal)"
  define talColor where "talColor = (if playerColor = ''w'' then ''black'' else ''white'')"
  define key where "key = first4 (g_fen g)"
  have book: "bookFor talColor = object_literal decls"
    by (auto simp: bookFor_def talColor_def decls_def TAL_OPENINGS_black_def
        TAL_OPENINGS_white_def)
  have wf: "first4 k = k \<and> ms \<noteq> [] \<and> (\<forall>u \<in> set ms. length u = 4)"
    if "(k, ms) \<in> set decls" for k ms
    using that literal_wf [of k ms] by (auto simp: decls_def split: if_splits)
  have same: "List.find (\<lambda>k. startsWith key (first4 k)) (map fst decls)
              = List.find (\<lambda>k. startsWith key k) (map fst decls)"
    by (rule find_cong) (auto dest: wf)
  have scan: "getOpeningBookMove (book_draw rs) (g_fen g) talColor =
     (case List.find (\<lambda>k. startsWith key k) (map fst decls) of
        None \<Rightarrow> None
      | Some k \<Rightarrow>
          (case map_of (rev decls) k of
             None \<Rightarrow> None
           | Some ms \<Rightarrow>
               convertToMoveObject (js_index ms \<lfloor>book_draw rs * real (length ms)\<rfloor>)))"
    unfolding getOpeningBookMove_def Let_def bookScan_keys key_def [symmetric] book
      object_literal_keys object_literal_values same ..
  show ?thesis
  proof (cases "List.find (\<lambda>k. startsWith key k) (map fst decls)")
    case None
    then have "getOpeningBookMove (book_draw rs) (g_fen g) talColor = None"
      using scan by simp
    then show ?thesis
      using None
      by (simp add: getBestMove_def Let_def talColor_def [symmetric] key_def [symmetric]
          decls_def [symmetric])
  next
    case (Some k)
    have "k \<in> set (map fst decls)"
      using find_mem [OF Some] by simp
    then have "k \<in> fst ` set (rev decls)" by simp
    then obtain ms where ms: "map_of (rev decls) k = Some ms"
      by (metis map_of_eq_None_iff not_Some_eq)
    then have mem: "(k, ms) \<in> set decls"
      using map_of_SomeD by fastforce
    have wfk: "ms \<noteq> []" "\<forall>u \<in> set ms. length u = 4"
      using wf [OF mem] by simp_all
    obtain u where u: "u \<in> set ms"
        "js_index ms \<lfloor>book_draw rs * real (length ms)\<rfloor> = Some u"
      using js_index_draw [OF assms wfk(1)] by blast
    have lu: "length u = 4" using wfk(2) u(1) by simp
    obtain mo where mo: "convertToMoveObject (Some u) = Some mo"
      using lu by (simp add: convertToMoveObject_def)
    have bk: "getOpeningBookMove (book_draw rs) (g_fen g) talColor = Some mo"
      using scan Some ms u(2) mo by simp
    have "getBestMove d ap rs g playerColor =
            Inr \<lparr>chosen = Some mo, delays = [simulateThinking d (think_draw rs)],
                 evaluated = []\<rparr>"
      using bk by (simp add: getBestMove_def Let_def talColor_def)
    then show ?thesis
      using Some ms u(1) mo bk
      by (auto simp: Let_def talColor_def [symmetric] key_def [symmetric]
          decls_def [symmetric])
  qed
qed

theorem book_first_key_last_moves_witness:
  "0 \<le> book_draw draws_half \<and> book_draw draws_half < 1
   \<and> getBestMove intermediate (\<lambda>g m. g) draws_half (blank_game\<lparr>g_fen := fen_start\<rparr>) ''b'' =
       Inr \<lparr>chosen = Some \<lparr>mo_from = ''e2'', mo_to = ''e4'', mo_promotion = None\<rparr>,
            delays = [simulateThinking intermediate (1 / 2)], evaluated = []\<rparr>
   \<and> getBestMove intermediate (\<lambda>g m. g) draws_half
        (blank_game\<lparr>g_fen := fen_d4_c4_Nf6\<rparr>) ''w'' =
       Inr \<lparr>chosen = Some \<lparr>mo_from = ''g7'', mo_to = ''g6'', mo_promotion = None\<rparr>,
            delays = [simulateThinking intermediate (1 / 2)], evaluated = []\<rparr>
   \<and> getBestMove intermediate (\<lambda>g m. g) draws_half (blank_game\<lparr>g_fen := fen_start\<rparr>) ''w'' =
       calculateBestMove intermediate (\<lambda>g m. g) draws_half (blank_game\<lparr>g_fen := fen_start\<rparr>)"
proof -
  have h1: "0 \<le> book_draw draws_half" and h2: "book_draw draws_half < 1"
    by (simp_all add: draws_half_def)
  have cv: "convertToMoveObject (Some ''e2e4'') =
      Some \<lparr>mo_from = ''e2'', mo_to = ''e4'', mo_promotion = None\<rparr>"
    by (simp add: convertToMoveObject_def)
  have td: "think_draw draws_half = 1 / 2" "book_draw draws_half = 1 / 2"
    by (simp_all add: draws_half_def)
  have w: "getBestMove intermediate (\<lambda>g m. g) draws_half (blank_game\<lparr>g_fen := fen_start\<rparr>) ''b'' =
       Inr \<lparr>chosen = Some \<lparr>mo_from = ''e2'', mo_to = ''e4'', mo_promotion = None\<rparr>,
            delays = [simulateThinking intermediate (1 / 2)], evaluated = []\<rparr>"
    using book_first_key_last_moves [OF h1 h2, of "''b''" "blank_game\<lparr>g_fen := fen_start\<rparr>"
        intermediate "\<lambda>g m. g"]
    by (simp add: white_first_key_start white_moves_start cv td)
  have b: "getBestMove intermediate (\<lambda>g m. g) draws_half
        (blank_game\<lparr>g_fen := fen_d4_c4_Nf6\<rparr>) ''w'' =
       Inr \<lparr>chosen = Some \<lparr>mo_from = ''g7'', mo_to = ''g6'', mo_promotion = None\<rparr>,
            delays = [simulateThinking intermediate (1 / 2)], evaluated = []\<rparr>"
    by (simp add: getBestMove_def book_d4_c4_Nf6_half_draw td)
  have n: "getBestMove intermediate (\<lambda>g m. g) draws_half (blank_game\<lparr>g_fen := fen_start\<rparr>) ''w'' =
       calculateBestMove intermediate (\<lambda>g m. g) draws_half (blank_game\<lparr>g_fen := fen_start\<rparr>)"
    using book_first_key_last_moves [OF h1 h2, of "''w''" "blank_game\<lparr>g_fen := fen_start\<rparr>"
        intermediate "\<lambda>g m. g"]
    by (simp add: black_no_key_start)
  show ?thesis using h1 h2 w b n by simp
qed

section \<open>Properties of the scorer and of move selection\<close>

text \<open>Every profile that \<open>getDifficulty\<close> can return has its intensity in \<open>[0, 1]\<close>.\<close>

lemma getDifficulty_intensity:
  assumes "getDifficulty level = Own d"
  shows "0 \<le> talStyleIntensity d \<and> talStyleIntensity d \<le> 1"
proof -
  have "d \<in> {beginner, intermediate, advanced, master, legend}"
    using assms
    by (auto simp: getDifficulty_def DIFFICULTY_LEVELS_def split: if_splits property.splits)
  then show ?thesis
    by (auto simp: beginner_def intermediate_def advanced_def master_def legend_def)
qed

lemma getDifficulty_legend: "getDifficulty ''legend'' = Own legend"
  by (simp add: getDifficulty_def DIFFICULTY_LEVELS_def)

lemma getDifficulty_constructor: "getDifficulty ''constructor'' = Inherited"
  by (simp add: getDifficulty_def DIFFICULTY_LEVELS_def Object_prototype_names_def)

lemma shouldMakeMistake_zero:
  "mistakeRate d = 0 \<Longrightarrow> 0 \<le> r \<Longrightarrow> \<not> shouldMakeMistake r d"
  by (simp add: shouldMakeMistake_def)

text \<open>
  Claim C7. For a profile whose \<open>mistakeRate\<close> is 0 (Legend) and any draw of
  \<open>Math.random()\<close>, which is never negative, \<open>shouldMakeMistake\<close> is false:
  \<open>calculateBestMove\<close> is its scored path, every legal move is scored, and
  \<open>getRandomMove\<close> is not reached.
\<close>

theorem zero_mistake_rate_never_errs:
  assumes "mistakeRate d = 0" and "0 \<le> mistake_draw rs"
  shows "\<not> shouldMakeMistake (mistake_draw rs) d
         \<and> calculateBestMove d ap rs g =
             (if g_moves g = [] then Inr \<lparr>chosen = None, delays = [], evaluated = []\<rparr>
              else selectScored d ap rs g)
         \<and> (\<forall>out. g_moves g \<noteq> [] \<and> calculateBestMove d ap rs g = Inr out
               \<longrightarrow> evaluated out = g_moves g)"
proof -
  have no: "\<not> shouldMakeMistake (mistake_draw rs) d"
    using assms by (rule shouldMakeMistake_zero)
  then have eq: "calculateBestMove d ap rs g =
             (if g_moves g = [] then Inr \<lparr>chosen = None, delays = [], evaluated = []\<rparr>
              else selectScored d ap rs g)"
    by (simp add: calculateBestMove_def)
  have "evaluated out = g_moves g"
    if "g_moves g \<noteq> []" "calculateBestMove d ap rs g = Inr out" for out
    using that eq by (auto simp: selectScored_def Let_def split: sum.splits)
  with no eq show ?thesis by blast
qed

theorem zero_mistake_rate_never_errs_witness:
  "mistakeRate legend = 0 \<and> 0 \<le> mistake_draw (draws_half\<lparr>mistake_draw := 0\<rparr>)
   \<and> \<not> shouldMakeMistake (mistake_draw (draws_half\<lparr>mistake_draw := 0\<rparr>)) legend
   \<and> calculateBestMove legend demo_ap (draws_half\<lparr>mistake_draw := 0\<rparr>) demo_game =
       selectScored legend demo_ap (draws_half\<lparr>mistake_draw := 0\<rparr>) demo_game"
proof -
  have h: "mistakeRate legend = 0" "0 \<le> mistake_draw (draws_half\<lparr>mistake_draw := 0\<rparr>)"
    by (simp_all add: legend_def)
  have ne: "g_moves demo_game \<noteq> []" by (simp add: demo_game_def)
  show ?thesis
    using zero_mistake_rate_never_errs [OF h, of demo_ap demo_game] h ne by simp
qed

text \<open>
  Claim C8 says that the continuation bonus is added exactly when more than two replies
  check or capture. The code counts the replies whose SAN contains \<open>+\<close> or that
  capture, and the SAN of a mating reply ends in \<open>#\<close>. After the knight takes the pawn
  on e7, four of Black's replies give check (they mate) and none is counted: the bonus
  is the acceptance bonus alone, 30, and the continuation bonus of 120 is not added.
\<close>

theorem sacrifice_mating_replies_counterexample:
  "unitsOf (m_captured knight_takes_pawn) < unitsOf (Some (m_piece knight_takes_pawn))
   \<and> length (g_moves (sac_ap sac_game knight_takes_pawn)) = 10
   \<and> length (claimed_attackMoves sac_ap sac_game knight_takes_pawn) = 4
   \<and> length (attackMoves sac_ap sac_game knight_takes_pawn) = 0
   \<and> evaluateSacrifice advanced sac_ap knight_takes_pawn sac_game = 30
   \<and> 50 * talStyleIntensity advanced = 30
   \<and> 100 * (unitsOf (Some (m_piece knight_takes_pawn)) - unitsOf (m_captured knight_takes_pawn))
        * talStyleIntensity advanced = 120"
  by (simp add: unitsOf_def knight_takes_pawn_def sac_ap_def sac_replies_def black_move_def
      blank_game_def claimed_attackMoves_def attackMoves_def includes_char_def
      evaluateSacrifice_def advanced_def Let_def)

text \<open>
  Claim C8, as the code has it. \<open>evaluateSacrifice\<close> is nonzero only when the moving
  piece is worth strictly more than the captured one. In that case it is the sum of the
  acceptance bonus \<open>50 * intensity\<close>, present exactly when the deficit is at most
  \<open>|sacrificeThreshold|\<close>, and of the continuation bonus \<open>100 * deficit * intensity\<close>,
  present exactly when more than two of the legal replies after the move have a SAN
  containing \<open>+\<close> or capture. A pawn taking a queen gets 0.
\<close>

theorem sacrifice_bonus_plus_or_capture:
  "(evaluateSacrifice d ap m g \<noteq> 0 \<longrightarrow> unitsOf (Some (m_piece m)) > unitsOf (m_captured m))
   \<and> (unitsOf (Some (m_piece m)) > unitsOf (m_captured m) \<longrightarrow>
        evaluateSacrifice d ap m g =
          (if unitsOf (Some (m_piece m)) - unitsOf (m_captured m) \<le> \<bar>sacrificeThreshold d\<bar>
           then 50 * talStyleIntensity d else 0)
          + (if length (filter (\<lambda>r. CHR ''+'' \<in> set (m_san r) \<or> m_captured r \<noteq> None)
                          (g_moves (ap g m))) > 2
             then 100 * (unitsOf (Some (m_piece m)) - unitsOf (m_captured m))
                  * talStyleIntensity d
             else 0))
   \<and> (m_piece m = Pawn \<and> m_captured m = Some Queen \<longrightarrow> evaluateSacrifice d ap m g = 0)"
  by (simp add: evaluateSacrifice_def attackMoves_def includes_char_def Let_def unitsOf_def)

theorem sacrifice_bonus_plus_or_capture_witness:
  "unitsOf (Some (m_piece queen_takes_pawn)) > unitsOf (m_captured queen_takes_pawn)
   \<and> length (filter (\<lambda>r. CHR ''+'' \<in> set (m_san r) \<or> m_captured r \<noteq> None)
               (g_moves (replies_ap blank_game queen_takes_pawn))) = 3
   \<and> evaluateSacrifice master replies_ap queen_takes_pawn blank_game = 640
   \<and> evaluateSacrifice beginner replies_ap queen_takes_pawn blank_game = 160
   \<and> unitsOf (Some (m_piece knight_takes_pawn)) > unitsOf (m_captured knight_takes_pawn)
   \<and> length (filter (\<lambda>r. CHR ''+'' \<in> set (m_san r) \<or> m_captured r \<noteq> None)
               (g_moves (sac_ap sac_game knight_takes_pawn))) = 0
   \<and> evaluateSacrifice advanced sac_ap knight_takes_pawn sac_game = 30
   \<and> m_piece pawn_takes_queen = Pawn \<and> m_captured pawn_takes_queen = Some Queen
   \<and> evaluateSacrifice master replies_ap pawn_takes_queen blank_game = 0"
proof -
  have u: "unitsOf (Some (m_piece queen_takes_pawn)) > unitsOf (m_captured queen_takes_pawn)"
      "unitsOf (Some (m_piece knight_takes_pawn)) > unitsOf (m_captured knight_takes_pawn)"
    by (simp_all add: unitsOf_def queen_takes_pawn_def knight_takes_pawn_def)
  have n: "length (filter (\<lambda>r. CHR ''+'' \<in> set (m_san r) \<or> m_captured r \<noteq> None)
               (g_moves (replies_ap blank_game queen_takes_pawn))) = 3"
    by (simp add: replies_ap_def recapture_def blank_game_def)
  have z: "length (filter (\<lambda>r. CHR ''+'' \<in> set (m_san r) \<or> m_captured r \<noteq> None)
               (g_moves (sac_ap sac_game knight_takes_pawn))) = 0"
    by (simp add: sac_ap_def sac_replies_def black_move_def blank_game_def
        knight_takes_pawn_def)
  have p: "m_piece pawn_takes_queen = Pawn \<and> m_captured pawn_takes_queen = Some Queen"
    by (simp add: pawn_takes_queen_def)
  have q: "evaluateSacrifice master replies_ap queen_takes_pawn blank_game = 640"
    using sacrifice_bonus_plus_or_capture [of master replies_ap queen_takes_pawn blank_game] u n
    by (simp add: unitsOf_def queen_takes_pawn_def master_def)
  have b: "evaluateSacrifice beginner replies_ap queen_takes_pawn blank_game = 160"
    using sacrifice_bonus_plus_or_capture [of beginner replies_ap queen_takes_pawn blank_game] u n
    by (simp add: unitsOf_def queen_takes_pawn_def beginner_def)
  have k: "evaluateSacrifice advanced sac_ap knight_takes_pawn sac_game = 30"
    using sacrifice_bonus_plus_or_capture [of advanced sac_ap knight_takes_pawn sac_game] u z
    by (simp add: unitsOf_def knight_takes_pawn_def advanced_def)
  have zero: "evaluateSacrifice master replies_ap pawn_takes_queen blank_game = 0"
    using sacrifice_bonus_plus_or_capture [of master replies_ap pawn_takes_queen blank_game] p
    by simp
  show ?thesis using u n z p q b k zero by simp
qed

text \<open>
  Claim C10. In the first 20 plies the development term of \<open>calculateTalStyleBonus\<close> is
  awarded to every move that starts on rank 8, whatever the piece, and to a move that
  starts on rank 1 only when the piece is a knight or a bishop: the condition reads
  (knight or bishop, and from rank 1) or from rank 8. The term is the whole difference
  that the ply count makes to the bonus.
\<close>

theorem development_bonus_condition:
  assumes "length (g_history g) < 20"
  shows "(js_index (m_from m) 1 = Some CHR ''8'' \<longrightarrow>
            tal_development d m g = MOD_pieceActivity * talStyleIntensity d)
         \<and> (js_index (m_from m) 1 = Some CHR ''1'' \<longrightarrow>
              tal_development d m g =
                (if m_piece m = Knight \<or> m_piece m = Bishop
                 then MOD_pieceActivity * talStyleIntensity d else 0))
         \<and> tal_development d m g =
             (if ((m_piece m = Knight \<or> m_piece m = Bishop)
                    \<and> js_index (m_from m) 1 = Some CHR ''1'')
                 \<or> js_index (m_from m) 1 = Some CHR ''8''
              then MOD_pieceActivity * talStyleIntensity d else 0)
         \<and> (20 \<le> length h' \<longrightarrow>
              calculateTalStyleBonus m g d
                - calculateTalStyleBonus m (g\<lparr>g_history := h'\<rparr>) d
              = tal_development d m g)"
  using assms
  by (auto simp: tal_development_def calculateTalStyleBonus_def tal_kingApproach_def
      findKingSquare_def)

theorem development_bonus_condition_witness:
  "length (g_history blank_game) < 20
   \<and> js_index (m_from king_from_e8) 1 = Some CHR ''8''
   \<and> tal_development legend king_from_e8 blank_game = 40
   \<and> js_index (m_from queen_from_d1) 1 = Some CHR ''1''
   \<and> tal_development legend queen_from_d1 blank_game = 0
   \<and> calculateTalStyleBonus king_from_e8 blank_game legend
       - calculateTalStyleBonus king_from_e8 (blank_game\<lparr>g_history := replicate 20 king_from_e8\<rparr>)
           legend = 40"
proof -
  have h: "length (g_history blank_game) < 20" by (simp add: blank_game_def)
  have k: "js_index (m_from king_from_e8) 1 = Some CHR ''8''"
    by (simp add: king_from_e8_def js_index_def)
  have q: "js_index (m_from queen_from_d1) 1 = Some CHR ''1''"
      "\<not> (m_piece queen_from_d1 = Knight \<or> m_piece queen_from_d1 = Bishop)"
    by (simp_all add: queen_from_d1_def js_index_def)
  have l: "20 \<le> length (replicate 20 king_from_e8)" by simp
  show ?thesis
    using development_bonus_condition [OF h, of king_from_e8 legend "replicate 20 king_from_e8"]
      development_bonus_condition [OF h, of queen_from_d1 legend "[]"] h k q l
    by (simp add: MOD_pieceActivity_def legend_def)
qed

subsection \<open>Sorting by score\<close>

lemma insort_key_map_mono:
  assumes "\<And>x y. (k1 (h x) \<le> k1 (h y)) = (k2 x \<le> k2 y)"
  shows "insort_key k1 (h x) (map h xs) = map h (insort_key k2 x xs)"
  by (induction xs) (simp_all add: assms)

lemma sort_key_map_mono:
  assumes "\<And>x y. (k1 (h x) \<le> k1 (h y)) = (k2 x \<le> k2 y)"
  shows "sort_key k1 (map h xs) = map h (sort_key k2 xs)"
proof (induction xs)
  case Nil
  then show ?case by simp
next
  case (Cons x xs)
  have "sort_key k1 (map h (x # xs)) = insort_key k1 (h x) (sort_key k1 (map h xs))"
    by (simp add: sort_key_def)
  also have "\<dots> = insort_key k1 (h x) (map h (sort_key k2 xs))"
    by (simp only: Cons.IH)
  also have "\<dots> = map h (insort_key k2 x (sort_key k2 xs))"
    using assms by (rule insort_key_map_mono)
  also have "\<dots> = map h (sort_key k2 (x # xs))"
    by (simp add: sort_key_def)
  finally show ?case .
qed

lemma sortScored_shift:
  "sortScored (map (\<lambda>m. (m, f m + c)) ms) =
     map (\<lambda>sm. (fst sm, snd sm + c)) (sortScored (map (\<lambda>m. (m, f m)) ms))"
proof -
  have "sort_key (\<lambda>sm. - snd sm) (map (\<lambda>sm. (fst sm, snd sm + c)) (map (\<lambda>m. (m, f m)) ms)) =
        map (\<lambda>sm. (fst sm, snd sm + c)) (sort_key (\<lambda>sm. - snd sm) (map (\<lambda>m. (m, f m)) ms))"
    by (rule sort_key_map_mono) simp
  then show ?thesis by (simp add: sortScored_def comp_def)
qed

lemma js_index_map: "js_index (map h xs) i = map_option h (js_index xs i)"
proof (cases "0 \<le> i \<and> i < int (length xs)")
  case True
  then have "nat i < length xs" by linarith
  then show ?thesis using True by (simp add: js_index_def)
next
  case False
  then show ?thesis by (auto simp: js_index_def)
qed

lemma pickTop_shift:
  "pickTop d r (map (\<lambda>m. (m, f m + c)) ms) = pickTop d r (map (\<lambda>m. (m, f m)) ms)"
proof -
  define top where "top = topMoves d (sortScored (map (\<lambda>m. (m, f m)) ms))"
  have "topMoves d (sortScored (map (\<lambda>m. (m, f m + c)) ms)) =
          map (\<lambda>sm. (fst sm, snd sm + c)) top"
    by (simp add: sortScored_shift topMoves_def top_def take_map)
  then show ?thesis
    unfolding pickTop_def Let_def top_def [symmetric]
    by (cases "js_index top \<lfloor>r * real (length top)\<rfloor>") (simp_all add: js_index_map)
qed

lemma sortScored_head:
  assumes "sms \<noteq> []"
  shows "\<exists>m s rest. sortScored sms = (m, s) # rest \<and> (m, s) \<in> set sms
            \<and> (\<forall>sm \<in> set sms. snd sm \<le> s)"
proof -
  have "length (sortScored sms) = length sms"
    by (simp add: sortScored_def)
  then have ne: "sortScored sms \<noteq> []"
    using assms by auto
  then obtain x rest where xr: "sortScored sms = x # rest"
    by (cases "sortScored sms") auto
  have st: "set (sortScored sms) = set sms"
    by (simp add: sortScored_def)
  have "sorted (map (\<lambda>sm. - snd sm) (sortScored sms))"
    by (simp add: sortScored_def)
  then have "\<forall>y \<in> set rest. - snd x \<le> - snd y"
    by (simp add: xr)
  then have "\<forall>sm \<in> set sms. snd sm \<le> snd x"
    using st xr by auto
  moreover have "x \<in> set sms" using st xr by auto
  ultimately show ?thesis using xr by (cases x) auto
qed

text \<open>
  Claim C9. The complexity term of a score is a function of the position before the
  move alone; every candidate of one selection gets the same amount, so neither the
  order of the sorted candidates nor the selected move depends on it.
\<close>

theorem complexity_bonus_is_move_independent:
  "evaluateMove d ap m g - complexityTerm d g =
      captureTerm m + calculateTalStyleBonus m g d + mateTerm ap m g
        + (if m_captured m \<noteq> None then evaluateSacrifice d ap m g else 0)
        + evaluateKingAttack d m g + evaluatePieceActivity m g
   \<and> (evaluateMove d ap m g < evaluateMove d ap m' g) =
       (evaluateMove d ap m g - complexityTerm d g
          < evaluateMove d ap m' g - complexityTerm d g)
   \<and> map fst (sortScored (scoreAll d ap g ms)) =
       map fst (sortScored (map (\<lambda>m. (m, evaluateMove d ap m g - complexityTerm d g)) ms))
   \<and> pickTop d r (scoreAll d ap g ms) =
       pickTop d r (map (\<lambda>m. (m, evaluateMove d ap m g - complexityTerm d g)) ms)"
proof -
  let ?f = "\<lambda>m. evaluateMove d ap m g - complexityTerm d g"
  have sc: "scoreAll d ap g ms = map (\<lambda>m. (m, ?f m + complexityTerm d g)) ms"
    by (simp add: scoreAll_def)
  have "map fst (sortScored (scoreAll d ap g ms)) = map fst (sortScored (map (\<lambda>m. (m, ?f m)) ms))"
    unfolding sc sortScored_shift by (simp add: comp_def)
  moreover have "pickTop d r (scoreAll d ap g ms) = pickTop d r (map (\<lambda>m. (m, ?f m)) ms)"
    unfolding sc by (rule pickTop_shift)
  moreover have "?f m = captureTerm m + calculateTalStyleBonus m g d + mateTerm ap m g
        + (if m_captured m \<noteq> None then evaluateSacrifice d ap m g else 0)
        + evaluateKingAttack d m g + evaluatePieceActivity m g"
    unfolding evaluateMove_def by (simp only: add_diff_cancel_right' add.commute add.left_commute)
  moreover have "(evaluateMove d ap m g < evaluateMove d ap m' g) = (?f m < ?f m')"
    by (simp only: diff_less_eq diff_add_cancel)
  ultimately show ?thesis by (intro conjI)
qed

subsection \<open>Bounds on the terms of a score\<close>

lemma on_board_file:
  assumes "on_board sq"
  shows "\<exists>f. charCodeAt sq 0 = Some f \<and> 97 \<le> f \<and> f \<le> 104"
proof -
  have "length sq = 2" and "sq ! 0 \<in> set ''abcdefgh''"
    using assms by (simp_all add: on_board_def)
  then show ?thesis
    by (auto simp: charCodeAt_def js_index_def)
qed

lemma on_board_rank:
  assumes "on_board sq"
  shows "\<exists>r. parseInt_char (js_index sq 1) = Some r \<and> 1 \<le> r \<and> r \<le> 8"
proof -
  have "length sq = 2" and "sq ! 1 \<in> set ''12345678''"
    using assms by (simp_all add: on_board_def)
  then show ?thesis
    by (auto simp: parseInt_char_def decimal_digits_def js_index_def)
qed

lemma squareDistance_on_board:
  assumes "on_board a" and "on_board b"
  shows "\<exists>n. squareDistance a b = Some n \<and> 0 \<le> n \<and> n \<le> 14"
proof -
  obtain f1 where f1: "charCodeAt a 0 = Some f1" "97 \<le> f1" "f1 \<le> 104"
    using on_board_file [OF assms(1)] by blast
  obtain r1 where r1: "parseInt_char (js_index a 1) = Some r1" "1 \<le> r1" "r1 \<le> 8"
    using on_board_rank [OF assms(1)] by blast
  obtain f2 where f2: "charCodeAt b 0 = Some f2" "97 \<le> f2" "f2 \<le> 104"
    using on_board_file [OF assms(2)] by blast
  obtain r2 where r2: "parseInt_char (js_index b 1) = Some r2" "1 \<le> r2" "r2 \<le> 8"
    using on_board_rank [OF assms(2)] by blast
  have "squareDistance a b = Some (\<bar>(f1 - 97) - (f2 - 97)\<bar> + \<bar>(r1 - 1) - (r2 - 1)\<bar>)"
    by (simp add: squareDistance_def f1(1) r1(1) f2(1) r2(1))
  moreover have "0 \<le> \<bar>(f1 - 97) - (f2 - 97)\<bar> + \<bar>(r1 - 1) - (r2 - 1)\<bar>" by simp
  moreover have "\<bar>(f1 - 97) - (f2 - 97)\<bar> + \<bar>(r1 - 1) - (r2 - 1)\<bar> \<le> 14"
    using f1 r1 f2 r2 by linarith
  ultimately show ?thesis by blast
qed

lemma rows_cols: "(row, col) \<in> set (List.product [0..<8] [0..<8]) \<Longrightarrow> row < 8 \<and> col < 8"
  by auto

lemma findKingSquare_on_board:
  assumes "findKingSquare g c = Some sq"
  shows "on_board sq"
proof -
  obtain row col where
      fd: "List.find (\<lambda>(row, col). g_board g row col = Some (King, c))
             (List.product [0..<8] [0..<8]) = Some (row, col)"
      and sq: "sq = [''abcdefgh'' ! col, ''0123456789'' ! (8 - row)]"
    using assms by (auto simp: findKingSquare_def split: option.splits)
  have "(row, col) \<in> set (List.product [0..<8] [0..<8])"
    using find_mem [OF fd] by simp
  then have rc: "row < 8" "col < 8"
    using rows_cols by blast+
  have "col \<in> {0, 1, 2, 3, 4, 5, 6, 7}" using rc(2) by auto
  then have c: "''abcdefgh'' ! col \<in> set ''abcdefgh''" by auto
  have "row \<in> {0, 1, 2, 3, 4, 5, 6, 7}" using rc(1) by auto
  then have r: "''0123456789'' ! (8 - row) \<in> set ''12345678''" by auto
  show ?thesis using c r by (simp add: on_board_def sq)
qed

lemma scaled:
  fixes i :: real
  assumes "0 \<le> i" "i \<le> 1" "0 \<le> k" "k \<le> K"
  shows "0 \<le> k * i \<and> k * i \<le> K"
proof -
  have "k * i \<le> K * 1"
    using assms by (intro mult_mono) auto
  then show ?thesis using assms by simp
qed

lemma tal_sacrifice_bounds:
  assumes "0 \<le> talStyleIntensity d" "talStyleIntensity d \<le> 1"
  shows "0 \<le> tal_sacrifice d m \<and> tal_sacrifice d m \<le> 150"
  using scaled [OF assms, of 150 150]
  by (simp add: tal_sacrifice_def MOD_sacrifice_def Let_def)

lemma tal_check_bounds:
  assumes "0 \<le> talStyleIntensity d" "talStyleIntensity d \<le> 1"
  shows "0 \<le> tal_check d m \<and> tal_check d m \<le> 80"
  using scaled [OF assms, of 80 80]
  by (simp add: tal_check_def MOD_check_def)

lemma tal_center_bounds:
  assumes "0 \<le> talStyleIntensity d" "talStyleIntensity d \<le> 1"
  shows "0 \<le> tal_center d m \<and> tal_center d m \<le> 50"
  using scaled [OF assms, of 50 50]
  by (simp add: tal_center_def MOD_centerControl_def)

lemma tal_development_bounds:
  assumes "0 \<le> talStyleIntensity d" "talStyleIntensity d \<le> 1"
  shows "0 \<le> tal_development d m g \<and> tal_development d m g \<le> 40"
  using scaled [OF assms, of 40 40]
  by (simp add: tal_development_def MOD_pieceActivity_def)

lemma tal_retreat_bounds:
  assumes "0 \<le> talStyleIntensity d" "talStyleIntensity d \<le> 1"
  shows "- 50 \<le> tal_retreat d m \<and> tal_retreat d m \<le> 0"
  using scaled [OF assms, of 50 50]
  by (simp add: tal_retreat_def MOD_passivePiece_def Let_def)

lemma tal_kingApproach_bounds:
  assumes "0 \<le> talStyleIntensity d" "talStyleIntensity d \<le> 1"
    and "on_board (m_from m)" "on_board (m_to m)"
  shows "0 \<le> tal_kingApproach d m g \<and> tal_kingApproach d m g \<le> 1400"
proof (cases "findKingSquare g (if m_color m = White then Black else White)")
  case None
  then show ?thesis by (simp add: tal_kingApproach_def)
next
  case (Some k)
  have kb: "on_board k" using Some by (rule findKingSquare_on_board)
  obtain b where b: "squareDistance (m_from m) k = Some b" "0 \<le> b" "b \<le> 14"
    using squareDistance_on_board [OF assms(3) kb] by blast
  obtain a where a: "squareDistance (m_to m) k = Some a" "0 \<le> a" "a \<le> 14"
    using squareDistance_on_board [OF assms(4) kb] by blast
  show ?thesis
  proof (cases "a < b")
    case True
    have "0 \<le> real_of_int (b - a)" "real_of_int (b - a) \<le> 14"
      using True a b by simp_all
    then have "0 \<le> 100 * real_of_int (b - a)" "100 * real_of_int (b - a) \<le> 1400"
      by simp_all
    from scaled [OF assms(1,2) this]
    show ?thesis
      using True by (simp add: tal_kingApproach_def Some a(1) b(1) MOD_kingAttack_def mult.commute
          mult.left_commute)
  next
    case False
    then show ?thesis by (simp add: tal_kingApproach_def Some a(1) b(1))
  qed
qed

lemma calculateTalStyleBonus_bounds:
  assumes "0 \<le> talStyleIntensity d" "talStyleIntensity d \<le> 1"
    and "on_board (m_from m)" "on_board (m_to m)"
  shows "- 50 \<le> calculateTalStyleBonus m g d \<and> calculateTalStyleBonus m g d \<le> 1720"
  using tal_sacrifice_bounds [OF assms(1,2), of m] tal_check_bounds [OF assms(1,2), of m]
    tal_center_bounds [OF assms(1,2), of m] tal_development_bounds [OF assms(1,2), of m g]
    tal_retreat_bounds [OF assms(1,2), of m] tal_kingApproach_bounds [OF assms, of g]
  unfolding calculateTalStyleBonus_def by linarith

lemma captureTerm_bounds: "0 \<le> captureTerm m \<and> captureTerm m \<le> 1350"
proof (cases "m_captured m")
  case None
  then show ?thesis by (simp add: captureTerm_def)
next
  case (Some cap)
  then show ?thesis by (cases cap) (simp_all add: captureTerm_def)
qed

lemma pawnUnits_bounds: "0 \<le> pawnUnits p \<and> pawnUnits p \<le> 9"
  by (cases p) simp_all

lemma unitsOf_bounds: "0 \<le> unitsOf po \<and> unitsOf po \<le> 9"
  using pawnUnits_bounds by (cases po) (simp_all add: unitsOf_def)

lemma evaluateSacrifice_bounds:
  assumes "0 \<le> talStyleIntensity d" "talStyleIntensity d \<le> 1"
  shows "0 \<le> evaluateSacrifice d ap m g \<and> evaluateSacrifice d ap m g \<le> 950"
proof (cases "unitsOf (Some (m_piece m)) > unitsOf (m_captured m)")
  case False
  then show ?thesis by (simp add: evaluateSacrifice_def Let_def)
next
  case True
  define loss where "loss = unitsOf (Some (m_piece m)) - unitsOf (m_captured m)"
  have l: "0 \<le> loss" "loss \<le> 9"
    using True unitsOf_bounds [of "Some (m_piece m)"] unitsOf_bounds [of "m_captured m"]
    by (simp_all add: loss_def)
  then have "0 \<le> 100 * loss" "100 * loss \<le> 900" by simp_all
  from scaled [OF assms this]
  have c: "0 \<le> 100 * loss * talStyleIntensity d" "100 * loss * talStyleIntensity d \<le> 900"
    by simp_all
  have t: "0 \<le> 50 * talStyleIntensity d" "50 * talStyleIntensity d \<le> 50"
    using scaled [OF assms, of 50 50] by simp_all
  have "evaluateSacrifice d ap m g =
          (if length (attackMoves ap g m) > 2 then 100 * loss * talStyleIntensity d else 0)
          + (if loss \<le> \<bar>sacrificeThreshold d\<bar> then 50 * talStyleIntensity d else 0)"
    using True by (simp add: evaluateSacrifice_def Let_def loss_def)
  then show ?thesis using c t by auto
qed

lemma evaluateKingAttack_bounds:
  assumes "0 \<le> talStyleIntensity d" "talStyleIntensity d \<le> 1"
    and "on_board (m_from m)" "on_board (m_to m)"
  shows "0 \<le> evaluateKingAttack d m g \<and> evaluateKingAttack d m g \<le> 310"
proof (cases "findKingSquare g (if g_turn g = White then Black else White)")
  case None
  then show ?thesis by (simp add: evaluateKingAttack_def)
next
  case (Some k)
  have kb: "on_board k" using Some by (rule findKingSquare_on_board)
  obtain b where b: "squareDistance (m_from m) k = Some b" "0 \<le> b" "b \<le> 14"
    using squareDistance_on_board [OF assms(3) kb] by blast
  obtain a where a: "squareDistance (m_to m) k = Some a" "0 \<le> a" "a \<le> 14"
    using squareDistance_on_board [OF assms(4) kb] by blast
  have t: "0 \<le> 30 * talStyleIntensity d" "30 * talStyleIntensity d \<le> 30"
    using scaled [OF assms(1,2), of 30 30] by simp_all
  have ap: "0 \<le> (if a < b then real_of_int (b - a) * 20 * talStyleIntensity d else 0)
        \<and> (if a < b then real_of_int (b - a) * 20 * talStyleIntensity d else 0) \<le> 280"
  proof (cases "a < b")
    case True
    have "0 \<le> real_of_int (b - a) * 20" "real_of_int (b - a) * 20 \<le> 280"
      using True a b by simp_all
    from scaled [OF assms(1,2) this] show ?thesis using True by simp
  next
    case False
    then show ?thesis by simp
  qed
  have "evaluateKingAttack d m g =
          (if a < b then real_of_int (b - a) * 20 * talStyleIntensity d else 0)
          + (if nan_le (Some a) (Some 3) then 30 * talStyleIntensity d else 0)"
    by (simp add: evaluateKingAttack_def Let_def Some a(1) b(1))
  then show ?thesis using ap t by auto
qed

lemma evaluatePieceActivity_bounds:
  "- 15 \<le> evaluatePieceActivity m g \<and> evaluatePieceActivity m g \<le> 45"
  by (simp add: evaluatePieceActivity_def Let_def)

lemma mate_scores_higher:
  assumes "0 \<le> talStyleIntensity d" "talStyleIntensity d \<le> 1"
    and "on_board (m_from m)" "on_board (m_to m)"
    and "on_board (m_from m')" "on_board (m_to m')"
    and "g_in_checkmate (ap g m)" and "\<not> g_in_checkmate (ap g m')"
  shows "evaluateMove d ap m' g < evaluateMove d ap m g"
proof -
  have mt: "mateTerm ap m g = 100000" "mateTerm ap m' g \<le> 80"
    using assms(7,8) by (simp_all add: mateTerm_def MOD_check_def Let_def)
  have sac: "0 \<le> (if m_captured x \<noteq> None then evaluateSacrifice d ap x g else 0)
      \<and> (if m_captured x \<noteq> None then evaluateSacrifice d ap x g else 0) \<le> 950" for x
    using evaluateSacrifice_bounds [OF assms(1,2), of ap x g] by simp
  show ?thesis
    using mt captureTerm_bounds [of m] captureTerm_bounds [of m']
      calculateTalStyleBonus_bounds [OF assms(1,2,3,4), of g]
      calculateTalStyleBonus_bounds [OF assms(1,2,5,6), of g]
      sac [of m] sac [of m']
      evaluateKingAttack_bounds [OF assms(1,2,3,4), of g]
      evaluateKingAttack_bounds [OF assms(1,2,5,6), of g]
      evaluatePieceActivity_bounds [of m g] evaluatePieceActivity_bounds [of m' g]
    unfolding evaluateMove_def by linarith
qed

text \<open>
  Claim C1. With an intensity in \<open>[0, 1]\<close> (all five profiles) and the squares of the
  legal moves on the board, a legal move that gives checkmate scores strictly more than
  every legal move that does not, and the first element of the list sorted by descending
  score is a mating move.
\<close>

theorem checkmate_ranked_first:
  assumes "0 \<le> talStyleIntensity d" and "talStyleIntensity d \<le> 1"
    and "\<forall>m \<in> set (g_moves g). on_board (m_from m) \<and> on_board (m_to m)"
    and "mv \<in> set (g_moves g)" and "g_in_checkmate (ap g mv)"
  shows "(\<forall>m' \<in> set (g_moves g). \<not> g_in_checkmate (ap g m')
            \<longrightarrow> evaluateMove d ap m' g < evaluateMove d ap mv g)
         \<and> (\<exists>m0 s rest. sortScored (scoreAll d ap g (g_moves g)) = (m0, s) # rest
               \<and> g_in_checkmate (ap g m0))"
proof -
  have higher: "evaluateMove d ap m' g < evaluateMove d ap mv g"
    if "m' \<in> set (g_moves g)" "\<not> g_in_checkmate (ap g m')" for m'
  proof -
    have "on_board (m_from mv)" "on_board (m_to mv)" "on_board (m_from m')" "on_board (m_to m')"
      using assms(3,4) that(1) by blast+
    then show ?thesis
      using mate_scores_higher [of d mv m' ap g] assms(1,2,5) that(2) by blast
  qed
  have ne: "scoreAll d ap g (g_moves g) \<noteq> []"
    using assms(4) by (auto simp: scoreAll_def)
  obtain m0 s rest where hd: "sortScored (scoreAll d ap g (g_moves g)) = (m0, s) # rest"
      and mem: "(m0, s) \<in> set (scoreAll d ap g (g_moves g))"
      and top: "\<forall>sm \<in> set (scoreAll d ap g (g_moves g)). snd sm \<le> s"
    using sortScored_head [OF ne] by blast
  have m0: "m0 \<in> set (g_moves g)" "s = evaluateMove d ap m0 g"
    using mem by (auto simp: scoreAll_def)
  have "(mv, evaluateMove d ap mv g) \<in> set (scoreAll d ap g (g_moves g))"
    using assms(4) by (auto simp: scoreAll_def)
  then have "evaluateMove d ap mv g \<le> s"
    using top by fastforce
  then have "g_in_checkmate (ap g m0)"
    using higher [OF m0(1)] m0(2) by fastforce
  with hd higher show ?thesis by blast
qed

theorem checkmate_ranked_first_witness:
  "0 \<le> talStyleIntensity legend \<and> talStyleIntensity legend \<le> 1
   \<and> on_board (m_from demo_quiet) \<and> on_board (m_to demo_quiet)
   \<and> on_board (m_from demo_mate) \<and> on_board (m_to demo_mate)
   \<and> demo_mate \<in> set (g_moves demo_game)
   \<and> g_in_checkmate (demo_ap demo_game demo_mate)
   \<and> \<not> g_in_checkmate (demo_ap demo_game demo_quiet)
   \<and> evaluateMove legend demo_ap demo_quiet demo_game
       < evaluateMove legend demo_ap demo_mate demo_game
   \<and> (\<exists>m0 s rest.
         sortScored (scoreAll legend demo_ap demo_game (g_moves demo_game)) = (m0, s) # rest
         \<and> g_in_checkmate (demo_ap demo_game m0))"
proof -
  have i: "0 \<le> talStyleIntensity legend" "talStyleIntensity legend \<le> 1"
    by (simp_all add: legend_def)
  have b: "on_board (m_from demo_quiet)" "on_board (m_to demo_quiet)"
      "on_board (m_from demo_mate)" "on_board (m_to demo_mate)"
    by (simp_all add: on_board_def demo_quiet_def demo_mate_def)
  have ms: "g_moves demo_game = [demo_quiet, demo_mate]"
    by (simp add: demo_game_def)
  have all: "\<forall>m \<in> set (g_moves demo_game). on_board (m_from m) \<and> on_board (m_to m)"
    using b by (simp add: ms)
  have mem: "demo_mate \<in> set (g_moves demo_game)" "demo_quiet \<in> set (g_moves demo_game)"
    by (simp_all add: ms)
  have mate: "g_in_checkmate (demo_ap demo_game demo_mate)"
    by (simp add: demo_ap_def demo_mate_def)
  have quiet: "\<not> g_in_checkmate (demo_ap demo_game demo_quiet)"
    by (simp add: demo_ap_def demo_quiet_def)
  show ?thesis
    using checkmate_ranked_first [of legend demo_game demo_mate demo_ap] i all b mem mate quiet
    by blast
qed

section \<open>Properties of the clock\<close>

subsection \<open>Rounding to doubles\<close>

lemma rne_error: "\<bar>of_int (rne y) - y\<bar> \<le> 1 / 2"
proof -
  have "0 \<le> y - of_int \<lfloor>y\<rfloor>" "y - of_int \<lfloor>y\<rfloor> < 1"
    by linarith+
  then show ?thesis
    by (auto simp: rne_def Let_def)
qed

lemma rne_nonneg: "0 \<le> y \<Longrightarrow> 0 \<le> rne y"
  by (auto simp: rne_def Let_def)

lemma expo_lower:
  assumes "x \<noteq> 0"
  shows "2 powi (expo x) \<le> \<bar>x\<bar>"
proof (cases "1 \<le> \<bar>x\<bar>")
  case True
  define m where "m = nat \<lfloor>\<bar>x\<bar>\<rfloor>"
  have m: "0 < m" "rat_of_nat m \<le> \<bar>x\<bar>"
  proof -
    have "1 \<le> \<lfloor>\<bar>x\<bar>\<rfloor>" using True by linarith
    then show "0 < m" by (simp add: m_def)
    have "rat_of_nat m = of_int \<lfloor>\<bar>x\<bar>\<rfloor>" using \<open>1 \<le> \<lfloor>\<bar>x\<bar>\<rfloor>\<close> by (simp add: m_def)
    then show "rat_of_nat m \<le> \<bar>x\<bar>" by simp
  qed
  have b: "2 ^ (floorlog 2 m - 1) \<le> m"
    using floorlog_bounds [of m 2] m(1) by simp
  have "floorlog 2 m \<noteq> 0"
    using m(1) by (simp add: floorlog_eq_zero_iff)
  then have pos: "0 < floorlog 2 m" by simp
  have "expo x = int (floorlog 2 m - 1)"
    using True pos by (simp add: expo_def m_def)
  then have "(2::rat) powi (expo x) = 2 ^ (floorlog 2 m - 1)"
    by (simp only: power_int_of_nat)
  also have "\<dots> = rat_of_nat (2 ^ (floorlog 2 m - 1))" by simp
  also have "\<dots> \<le> rat_of_nat m" using b by (simp only: of_nat_le_iff)
  finally show ?thesis using m(2) by simp
next
  case False
  define c where "c = \<lceil>1 / \<bar>x\<bar>\<rceil>"
  define m where "m = nat (c - 1)"
  define k where "k = floorlog 2 m"
  have ax: "0 < \<bar>x\<bar>" "\<bar>x\<bar> < 1" using assms False by simp_all
  then have "1 < 1 / \<bar>x\<bar>" by simp
  then have c2: "2 \<le> c" unfolding c_def by linarith
  then have m: "0 < m" "int m = c - 1" by (simp_all add: m_def)
  have "m < 2 ^ k"
    using floorlog_bounds [of m 2] m(1) by (simp add: k_def)
  then have "int m < 2 ^ k"
    by (metis of_nat_less_iff of_nat_numeral of_nat_power)
  then have "c \<le> 2 ^ k" using m(2) by simp
  then have "rat_of_int c \<le> 2 ^ k"
    by (metis of_int_le_iff of_int_numeral of_int_power)
  moreover have "1 / \<bar>x\<bar> \<le> rat_of_int c" unfolding c_def by linarith
  ultimately have "1 / \<bar>x\<bar> \<le> 2 ^ k" by linarith
  then have "1 \<le> 2 ^ k * \<bar>x\<bar>"
    using ax(1) by (simp add: field_simps)
  then have "1 / 2 ^ k \<le> \<bar>x\<bar>"
    by (simp add: field_simps)
  moreover have "expo x = - int k"
    using False by (simp add: expo_def k_def m_def c_def)
  ultimately show ?thesis
    by (simp add: power_int_minus_divide)
qed

lemma quantum_pos: "0 < quantum x"
  by (simp add: quantum_def zero_less_power_int)

lemma quantum_small:
  assumes "x \<noteq> 0" and "\<bar>x\<bar> < 512"
  shows "quantum x \<le> 1 / 2 ^ 44"
proof -
  have "expo x < 9"
  proof (rule ccontr)
    assume "\<not> expo x < 9"
    then have "(2::rat) powi 9 \<le> 2 powi (expo x)"
      by (intro power_int_increasing) auto
    then have "(512::rat) \<le> \<bar>x\<bar>"
      using expo_lower [OF assms(1)] by simp
    then show False using assms(2) by simp
  qed
  then have "max (expo x) (- 1022) - 52 \<le> - 44" by simp
  then have "quantum x \<le> 2 powi (- 44)"
    unfolding quantum_def by (intro power_int_increasing) auto
  then show ?thesis by (simp add: power_int_minus_divide)
qed

lemma fl_error:
  assumes "\<bar>x\<bar> < 512"
  shows "\<bar>fl x - x\<bar> \<le> 1 / 2 ^ 45"
proof (cases "x = 0")
  case True
  then show ?thesis by (simp add: fl_def)
next
  case False
  define q where "q = quantum x"
  have q: "0 < q" "q \<le> 1 / 2 ^ 44"
    using quantum_pos quantum_small [OF False assms] by (simp_all add: q_def)
  have "fl x - x = (of_int (rne (x / q)) - x / q) * q"
    using False q(1) by (simp add: fl_def q_def field_simps)
  then have "\<bar>fl x - x\<bar> = \<bar>of_int (rne (x / q)) - x / q\<bar> * q"
    using q(1) by (simp add: abs_mult)
  also have "\<dots> \<le> (1 / 2) * q"
    using rne_error [of "x / q"] q(1) by (intro mult_right_mono) auto
  also have "\<dots> \<le> (1 / 2) * (1 / 2 ^ 44)"
    using q(2) by (intro mult_left_mono) auto
  finally show ?thesis by simp
qed

lemma fl_nonneg: "0 \<le> x \<Longrightarrow> 0 \<le> fl x"
  using quantum_pos [of x] rne_nonneg [of "x / quantum x"]
  by (auto simp: fl_def intro!: mult_nonneg_nonneg)

lemma dbl_small:
  assumes "\<bar>x\<bar> < 512"
  shows "dbl x = Num (fl x)"
proof -
  have "\<bar>fl x - x\<bar> \<le> 1" using fl_error [OF assms] by simp
  then have "\<bar>fl x\<bar> < 513" using assms by linarith
  moreover have "(513::rat) < 2 ^ 1024" by simp
  ultimately have "\<not> 2 ^ 1024 \<le> fl x" "\<not> fl x \<le> - (2 ^ 1024)" by linarith+
  then show ?thesis by (simp add: dbl_def Let_def)
qed

lemma dbl_nonneg: "0 \<le> x \<Longrightarrow> js_ge0 (dbl x)"
  using fl_nonneg [of x] by (auto simp: dbl_def Let_def)

lemma tenth_value: "tenth = Num (fl (1 / 10))"
  unfolding tenth_def by (rule dbl_small) simp

lemma tenth_error: "\<bar>fl (1 / 10) - 1 / 10\<bar> \<le> 1 / 2 ^ 45"
  by (rule fl_error) simp

text \<open>
  The exponent is the only one whose binade holds \<open>x\<close>, so within a binade rounding is
  rounding to a multiple of a fixed spacing.
\<close>

lemma expo_upper:
  assumes "x \<noteq> 0"
  shows "\<bar>x\<bar> < 2 powi (expo x + 1)"
proof (cases "1 \<le> \<bar>x\<bar>")
  case True
  define m where "m = nat \<lfloor>\<bar>x\<bar>\<rfloor>"
  define k where "k = floorlog 2 m"
  have f1: "1 \<le> \<lfloor>\<bar>x\<bar>\<rfloor>" using True by linarith
  then have m: "0 < m" "int m = \<lfloor>\<bar>x\<bar>\<rfloor>" by (simp_all add: m_def)
  have "m < 2 ^ k"
    using floorlog_bounds [of m 2] m(1) by (simp add: k_def)
  then have "int m < 2 ^ k"
    by (metis of_nat_less_iff of_nat_numeral of_nat_power)
  then have "\<lfloor>\<bar>x\<bar>\<rfloor> + 1 \<le> 2 ^ k" using m(2) by simp
  then have "rat_of_int (\<lfloor>\<bar>x\<bar>\<rfloor> + 1) \<le> 2 ^ k"
    by (metis of_int_le_iff of_int_numeral of_int_power)
  moreover have "\<bar>x\<bar> < rat_of_int (\<lfloor>\<bar>x\<bar>\<rfloor> + 1)" by linarith
  ultimately have lt: "\<bar>x\<bar> < 2 ^ k" by linarith
  have "k \<noteq> 0" using m(1) by (simp add: k_def floorlog_eq_zero_iff)
  then have "expo x + 1 = int k"
    using True by (simp add: expo_def k_def m_def)
  then have "(2::rat) powi (expo x + 1) = 2 ^ k"
    by (simp only: power_int_of_nat)
  then show ?thesis using lt by simp
next
  case False
  define c where "c = \<lceil>1 / \<bar>x\<bar>\<rceil>"
  define m where "m = nat (c - 1)"
  define k where "k = floorlog 2 m"
  have ax: "0 < \<bar>x\<bar>" "\<bar>x\<bar> < 1" using assms False by simp_all
  then have "1 < 1 / \<bar>x\<bar>" by simp
  then have c2: "2 \<le> c" unfolding c_def by linarith
  then have m: "0 < m" "int m = c - 1" by (simp_all add: m_def)
  have kpos: "k \<noteq> 0" using m(1) by (simp add: k_def floorlog_eq_zero_iff)
  have "2 ^ (k - 1) \<le> m"
    using floorlog_bounds [of m 2] m(1) by (simp add: k_def)
  then have "(2::int) ^ (k - 1) \<le> int m"
    by (metis of_nat_le_iff of_nat_numeral of_nat_power)
  then have "(2::int) ^ (k - 1) \<le> c - 1" using m(2) by simp
  then have "rat_of_int (2 ^ (k - 1)) \<le> rat_of_int (c - 1)"
    by (simp only: of_int_le_iff)
  then have "(2::rat) ^ (k - 1) \<le> rat_of_int (c - 1)" by simp
  moreover have "rat_of_int (c - 1) < 1 / \<bar>x\<bar>" unfolding c_def by linarith
  ultimately have "(2::rat) ^ (k - 1) < 1 / \<bar>x\<bar>" by linarith
  then have "2 ^ (k - 1) * \<bar>x\<bar> < 1"
    using ax(1) by (simp add: field_simps)
  then have lt: "\<bar>x\<bar> < 1 / 2 ^ (k - 1)"
    by (simp add: field_simps)
  have "expo x + 1 = - int (k - 1)"
    using False kpos by (simp add: expo_def k_def m_def c_def)
  then have "(2::rat) powi (expo x + 1) = 1 / 2 ^ (k - 1)"
    by (simp add: power_int_minus_divide)
  then show ?thesis using lt by simp
qed

lemma expo_unique:
  assumes "2 powi e \<le> \<bar>x\<bar>" and "\<bar>x\<bar> < 2 powi (e + 1)"
  shows "expo x = e"
proof -
  have "(0::rat) < 2 powi e" by (simp add: zero_less_power_int)
  then have "0 < \<bar>x\<bar>" using assms(1) by linarith
  then have nz: "x \<noteq> 0" by simp
  have a: "(2::rat) powi (expo x) < 2 powi (e + 1)"
    using expo_lower [OF nz] assms(2) by linarith
  have b: "(2::rat) powi e < 2 powi (expo x + 1)"
    using expo_upper [OF nz] assms(1) by linarith
  have "expo x < e + 1"
  proof (rule ccontr)
    assume "\<not> expo x < e + 1"
    then have "(2::rat) powi (e + 1) \<le> 2 powi (expo x)"
      by (intro power_int_increasing) auto
    then show False using a by simp
  qed
  moreover have "e < expo x + 1"
  proof (rule ccontr)
    assume "\<not> e < expo x + 1"
    then have "(2::rat) powi (expo x + 1) \<le> 2 powi e"
      by (intro power_int_increasing) auto
    then show False using b by simp
  qed
  ultimately show ?thesis by simp
qed

lemma fl_binade:
  assumes "2 powi e \<le> \<bar>x\<bar>" and "\<bar>x\<bar> < 2 powi (e + 1)" and "- 1022 \<le> e"
  shows "fl x = of_int (rne (x / 2 powi (e - 52))) * 2 powi (e - 52)"
proof -
  have "(0::rat) < 2 powi e" by (simp add: zero_less_power_int)
  then have "0 < \<bar>x\<bar>" using assms(1) by linarith
  then have nz: "x \<noteq> 0" by simp
  have "expo x = e" using assms(1,2) by (rule expo_unique)
  then have "quantum x = 2 powi (e - 52)"
    using assms(3) by (simp add: quantum_def max_def)
  then show ?thesis using nz by (simp add: fl_def)
qed

lemma rne_nearest:
  assumes "\<bar>y - of_int k\<bar> < 1 / 2"
  shows "rne y = k"
proof (cases "of_int k \<le> y")
  case True
  then have "\<lfloor>y\<rfloor> = k" using assms by (intro floor_unique) linarith+
  then show ?thesis using assms True by (simp add: rne_def Let_def)
next
  case False
  then have "\<lfloor>y\<rfloor> = k - 1" using assms by (intro floor_unique) (simp, linarith)+
  then show ?thesis using assms False by (simp add: rne_def Let_def)
qed

lemma rne_tie:
  assumes "y - of_int k = 1 / 2"
  shows "rne y = (if even k then k else k + 1)"
proof -
  have "\<lfloor>y\<rfloor> = k" using assms by (intro floor_unique) linarith+
  then show ?thesis using assms by (simp add: rne_def Let_def)
qed

lemma tenth_exact: "fl (1 / 10) = 3602879701896397 / 36028797018963968"
proof -
  have "fl (1 / 10) = of_int (rne ((1 / 10) / 2 powi (- 4 - 52))) * 2 powi (- 4 - 52)"
    by (rule fl_binade) (simp_all add: power_int_minus_divide)
  moreover have "rne ((1 / 10) / 2 powi (- 4 - 52)) = 7205759403792794"
    by (rule rne_nearest) (simp add: power_int_minus_divide)
  ultimately show ?thesis
    by (simp add: power_int_minus_divide)
qed

subsection \<open>The invariant\<close>

lemma js_ge0_add: "js_ge0 a \<Longrightarrow> js_ge0 b \<Longrightarrow> js_ge0 (js_add a b)"
  by (cases a; cases b) (simp_all add: dbl_nonneg)

lemma js_sub_positive: "js_ge0 a \<Longrightarrow> \<not> js_le0 (js_sub a tenth) \<Longrightarrow> js_ge0 (js_sub a tenth)"
  by (cases a) (auto simp: tenth_value dbl_def Let_def split: if_splits)

lemma plain_control_ge0:
  assumes "TIME_CONTROLS k \<noteq> Inherited"
  shows "js_ge0 (control_time (case TIME_CONTROLS k of
                   Absent \<Rightarrow> Own tc_rapid | Own c \<Rightarrow> Own c | Inherited \<Rightarrow> Inherited))
         \<and> js_ge0 (control_increment (case TIME_CONTROLS k of
                   Absent \<Rightarrow> Own tc_rapid | Own c \<Rightarrow> Own c | Inherited \<Rightarrow> Inherited))"
  using assms
  by (simp add: TIME_CONTROLS_def control_time_def control_increment_def tc_bullet_def
      tc_blitz_def tc_rapid_def tc_classical_def tc_unlimited_def split: if_splits)

lemma clock_inv_init:
  assumes "TIME_CONTROLS k \<noteq> Inherited"
  shows "js_ge0 (playerTime (init k t)) \<and> js_ge0 (opponentTime (init k t))
   \<and> js_ge0 (increment (init k t))
   \<and> isPaused (init k t) \<and> activeTimer (init k t) = None
   \<and> currentTimeControl (init k t) = k"
  using plain_control_ge0 [OF assms] by (simp add: init_def stopInterval_def Let_def)

lemma tick_times_ge0:
  assumes "js_ge0 (playerTime t)" and "js_ge0 (opponentTime t)"
  shows "js_ge0 (playerTime (tick t)) \<and> js_ge0 (opponentTime (tick t))"
  using assms js_sub_positive [of "playerTime t"] js_sub_positive [of "opponentTime t"]
  by (simp add: tick_def handleTimeout_def tickCallback_def stopInterval_def Let_def)

lemma tick_fields:
  "increment (tick t) = increment t \<and> currentTimeControl (tick t) = currentTimeControl t
   \<and> activeTimer (tick t) = activeTimer t \<and> (isPaused t \<longrightarrow> isPaused (tick t))"
  by (simp add: tick_def handleTimeout_def tickCallback_def stopInterval_def Let_def)

lemma clock_inv_exec:
  assumes "clock_inv t" and "plain opn"
  shows "clock_inv (exec opn t)"
proof (cases opn)
  case (Init k)
  then show ?thesis using clock_inv_init [of k t] assms(2) by (auto simp: clock_inv_def)
next
  case (SetTimeoutCallback b)
  then show ?thesis using assms by (simp add: clock_inv_def setTimeoutCallback_def)
next
  case (SetTickCallback b)
  then show ?thesis using assms by (simp add: clock_inv_def setTickCallback_def)
next
  case (Start s)
  then show ?thesis using assms by (auto simp: clock_inv_def start_def stopInterval_def)
next
  case Pause
  then show ?thesis using assms by (simp add: clock_inv_def pause_def stopInterval_def)
next
  case Resume
  then show ?thesis using assms by (auto simp: clock_inv_def resume_def stopInterval_def)
next
  case SwitchTimer
  then show ?thesis
    using assms js_ge0_add [of "playerTime t" "increment t"]
      js_ge0_add [of "opponentTime t" "increment t"]
    by (auto simp: clock_inv_def switchTimer_def Let_def)
next
  case Tick
  then show ?thesis
    using assms tick_times_ge0 [of t] tick_fields [of t] by (simp add: clock_inv_def)
next
  case Reset
  have "TIME_CONTROLS (currentTimeControl t) \<noteq> Inherited"
    using assms(1) by (simp add: clock_inv_def)
  then show ?thesis
    using clock_inv_init [of "currentTimeControl t" "stopInterval t"] Reset
    by (auto simp: clock_inv_def reset_def)
qed

lemma reachable_plain_clock_inv: "reachable_plain t \<Longrightarrow> clock_inv t"
proof (induction rule: reachable_plain.induct)
  case plain_new
  then show ?case
    by (simp add: clock_inv_def new_TimerManager_def TIME_CONTROLS_def)
next
  case (plain_exec t opn)
  then show ?case by (simp add: clock_inv_exec)
qed

lemma tick_idle:
  "isPaused t \<or> activeTimer t = None \<Longrightarrow> tick t = t"
  by (auto simp: tick_def)

lemma tick_other_side:
  "(activeTimer t \<noteq> Some Player \<longrightarrow> playerTime (tick t) = playerTime t)
   \<and> (activeTimer t \<noteq> Some Opponent \<longrightarrow> opponentTime (tick t) = opponentTime t)"
proof (cases "activeTimer t")
  case None
  then show ?thesis by (simp add: tick_idle)
next
  case (Some s)
  then show ?thesis
    by (cases s)
      (simp_all add: tick_def handleTimeout_def tickCallback_def stopInterval_def Let_def)
qed

lemma tick_active_side:
  assumes "\<not> isPaused t"
  shows "(activeTimer t = Some Player \<longrightarrow>
            playerTime (tick t) =
              (if js_le0 (js_sub (playerTime t) tenth) then Num 0
               else js_sub (playerTime t) tenth))
         \<and> (activeTimer t = Some Opponent \<longrightarrow>
            opponentTime (tick t) =
              (if js_le0 (js_sub (opponentTime t) tenth) then Num 0
               else js_sub (opponentTime t) tenth))"
  using assms
  by (simp add: tick_def handleTimeout_def tickCallback_def stopInterval_def Let_def)

lemma tick_timeout:
  assumes "\<not> isPaused t" and "activeTimer t = Some s"
    and "js_le0 (js_sub (if s = Player then playerTime t else opponentTime t) tenth)"
  shows "isPaused (tick t) \<and> \<not> intervalId (tick t)
         \<and> calls (tick t) = (if onTimeoutCallback t then calls t @ [TimeoutCall s] else calls t)"
  using assms
  by (cases s)
    (simp_all add: tick_def handleTimeout_def tickCallback_def stopInterval_def Let_def)

text \<open>
  For the states reached without \<open>init\<close> on an inherited name: neither remaining time
  is negative; a tick leaves both times alone when the clock is paused, has no active
  side or runs the unlimited preset; otherwise it changes only the time of the side
  named by \<open>activeTimer\<close>, subtracting \<open>0.1\<close> or, when that reaches zero or less,
  setting it to zero, pausing the clock and calling the timeout callback.
\<close>

lemma clock_times_never_negative_plain:
  assumes "reachable_plain t"
  shows "js_ge0 (playerTime t) \<and> js_ge0 (opponentTime t)
         \<and> (isPaused t \<or> activeTimer t = None \<or> currentTimeControl t = ''unlimited''
              \<longrightarrow> playerTime (tick t) = playerTime t \<and> opponentTime (tick t) = opponentTime t)
         \<and> (activeTimer t \<noteq> Some Player \<longrightarrow> playerTime (tick t) = playerTime t)
         \<and> (activeTimer t \<noteq> Some Opponent \<longrightarrow> opponentTime (tick t) = opponentTime t)
         \<and> (\<not> isPaused t \<and> activeTimer t = Some Player \<longrightarrow>
              playerTime (tick t) =
                (if js_le0 (js_sub (playerTime t) tenth) then Num 0
                 else js_sub (playerTime t) tenth))
         \<and> (\<not> isPaused t \<and> activeTimer t = Some Opponent \<longrightarrow>
              opponentTime (tick t) =
                (if js_le0 (js_sub (opponentTime t) tenth) then Num 0
                 else js_sub (opponentTime t) tenth))
         \<and> (\<forall>s. \<not> isPaused t \<and> activeTimer t = Some s
                \<and> js_le0 (js_sub (if s = Player then playerTime t else opponentTime t) tenth)
              \<longrightarrow> isPaused (tick t)
                  \<and> calls (tick t) =
                      (if onTimeoutCallback t then calls t @ [TimeoutCall s] else calls t))"
proof -
  have inv: "clock_inv t" using assms by (rule reachable_plain_clock_inv)
  have idle: "playerTime (tick t) = playerTime t \<and> opponentTime (tick t) = opponentTime t"
    if "isPaused t \<or> activeTimer t = None \<or> currentTimeControl t = ''unlimited''"
  proof -
    have "isPaused t \<or> activeTimer t = None"
      using that inv by (auto simp: clock_inv_def)
    then show ?thesis by (simp add: tick_idle)
  qed
  show ?thesis
    using inv idle tick_other_side [of t] tick_active_side [of t] tick_timeout [of t]
    by (simp add: clock_inv_def)
qed

text \<open>
  Claim C3. In every reachable state both remaining times are said to be at least 0.
  \<open>init('constructor')\<close> finds the inherited \<open>Object\<close> function in the table, takes no
  fallback to the rapid preset and sets both times to \<open>undefined\<close>; after
  \<open>start('player')\<close> a tick makes the player's time \<open>NaN\<close>, which is not at least 0
  and never triggers the timeout.
\<close>

theorem clock_time_nan_after_inherited_key:
  "reachable (tick (start Player (init ''constructor'' new_TimerManager)))
   \<and> TIME_CONTROLS ''constructor'' = Inherited
   \<and> playerTime (init ''constructor'' new_TimerManager) = Undefined
   \<and> opponentTime (init ''constructor'' new_TimerManager) = Undefined
   \<and> playerTime (tick (start Player (init ''constructor'' new_TimerManager))) = NaN
   \<and> \<not> js_ge0 (playerTime (tick (start Player (init ''constructor'' new_TimerManager))))
   \<and> \<not> isPaused (tick (start Player (init ''constructor'' new_TimerManager)))
   \<and> playerTime (init ''no such preset'' new_TimerManager) = Num 600"
proof -
  have "reachable (exec Tick (exec (Start Player) (exec (Init ''constructor'') new_TimerManager)))"
    by (intro reachable_exec reachable_new)
  then have r: "reachable (tick (start Player (init ''constructor'' new_TimerManager)))"
    by simp
  have k: "TIME_CONTROLS ''constructor'' = Inherited"
    by (simp add: TIME_CONTROLS_def Object_prototype_names_def)
  have i: "init ''constructor'' new_TimerManager =
      new_TimerManager\<lparr>currentTimeControl := ''constructor'', playerTime := Undefined,
        opponentTime := Undefined, increment := Undefined\<rparr>"
    by (simp add: init_def k control_time_def control_increment_def stopInterval_def
        new_TimerManager_def)
  have t: "playerTime (tick (start Player (init ''constructor'' new_TimerManager))) = NaN"
      "\<not> isPaused (tick (start Player (init ''constructor'' new_TimerManager)))"
    unfolding i
    by (simp_all add: start_def tick_def stopInterval_def new_TimerManager_def tenth_value
        tickCallback_def Let_def)
  have f: "playerTime (init ''no such preset'' new_TimerManager) = Num 600"
    by (simp add: init_def TIME_CONTROLS_def Object_prototype_names_def control_time_def
        tc_rapid_def stopInterval_def Let_def)
  show ?thesis using r k i t f by simp
qed

subsection \<open>The blitz game\<close>

lemma blitz_started_fields:
  "blitz_started =
     \<lparr>playerTime = Num 300, opponentTime = Num 300, increment = Num 0,
      activeTimer = Some Player, intervalId = True, isPaused = False,
      onTimeoutCallback = True, onTickCallback = True, currentTimeControl = ''blitz'',
      calls = []\<rparr>"
  by (simp add: blitz_started_def start_def init_def setTickCallback_def
      setTimeoutCallback_def new_TimerManager_def stopInterval_def TIME_CONTROLS_def
      tc_blitz_def control_time_def control_increment_def)

lemma countdown_Suc: "countdown (Suc n) = fl (countdown n - fl (1 / 10))"
  by (simp add: countdown_def)

text \<open>After \<open>n\<close> subtractions the time is within \<open>n / 2 ^ 44\<close> of \<open>300 - n / 10\<close>.\<close>

lemma countdown_error:
  assumes "n \<le> 3010"
  shows "\<bar>countdown n - (300 - rat_of_nat n / 10)\<bar> \<le> rat_of_nat n * (1 / 2 ^ 44)"
  using assms
proof (induction n)
  case 0
  then show ?case by (simp add: countdown_def)
next
  case (Suc n)
  define c where "c = countdown n"
  define d where "d = fl (1 / 10)"
  define N where "N = rat_of_nat n"
  define E where "E = (1::rat) / 2 ^ 44"
  have E: "0 < E" "E \<le> 1 / 1000000" by (simp_all add: E_def)
  have half: "(1::rat) / 2 ^ 45 = E / 2" by (simp add: E_def)
  have N: "0 \<le> N" "N \<le> 3009" using Suc.prems by (simp_all add: N_def)
  have NE: "N * E \<le> 3009 * E" using N E by (intro mult_right_mono) auto
  have "n \<le> 3010" using Suc.prems by simp
  then have ih: "\<bar>c - (300 - N / 10)\<bar> \<le> N * E"
    unfolding c_def N_def E_def by (rule Suc.IH)
  have d: "\<bar>d - 1 / 10\<bar> \<le> E / 2"
    unfolding d_def half [symmetric] by (rule tenth_error)
  have "\<bar>c - d\<bar> < 512"
    using ih d NE N E by linarith
  then have r: "\<bar>fl (c - d) - (c - d)\<bar> \<le> E / 2"
    unfolding half [symmetric] by (rule fl_error)
  have s1: "(N + 1) * E = N * E + E" by (simp add: algebra_simps)
  have s2: "(N + 1) / 10 = N / 10 + 1 / 10" by (simp add: add_divide_distrib)
  have "\<bar>fl (c - d) - (300 - (N + 1) / 10)\<bar> \<le> (N + 1) * E"
    unfolding s1 s2 using r ih d by linarith
  moreover have "rat_of_nat (Suc n) = N + 1" by (simp add: N_def)
  ultimately show ?case
    by (simp only: countdown_Suc c_def d_def E_def)
qed

lemma countdown_near:
  assumes "n \<le> 3010"
  shows "\<bar>countdown n - (300 - rat_of_nat n / 10)\<bar> \<le> 1 / 100"
proof -
  define N where "N = rat_of_nat n"
  define E where "E = (1::rat) / 2 ^ 44"
  have E: "0 < E" "E \<le> 1 / 1000000" by (simp_all add: E_def)
  have N: "0 \<le> N" "N \<le> 3010" using assms by (simp_all add: N_def)
  have NE: "N * E \<le> 3010 * E" using N E by (intro mult_right_mono) auto
  have "\<bar>countdown n - (300 - N / 10)\<bar> \<le> N * E"
    unfolding N_def E_def using assms by (rule countdown_error)
  then have "\<bar>countdown n - (300 - N / 10)\<bar> \<le> 1 / 100"
    using NE E by linarith
  then show ?thesis by (simp only: N_def)
qed

lemma countdown_in_range:
  assumes "n \<le> 3010"
  shows "\<bar>countdown n - fl (1 / 10)\<bar> < 512"
proof -
  define N where "N = rat_of_nat n"
  have N: "0 \<le> N" "N \<le> 3010" using assms by (simp_all add: N_def)
  have c: "\<bar>countdown n - (300 - N / 10)\<bar> \<le> 1 / 100"
    unfolding N_def using assms by (rule countdown_near)
  have "\<bar>fl (1 / 10) - 1 / 10\<bar> \<le> (1::rat)"
    using tenth_error by simp
  then show ?thesis using c N by linarith
qed

lemma countdown_positive:
  assumes "n \<le> 2999"
  shows "0 < countdown n"
proof -
  define N where "N = rat_of_nat n"
  have N: "0 \<le> N" "N \<le> 2999" using assms by (simp_all add: N_def)
  have "n \<le> 3010" using assms by simp
  then have "\<bar>countdown n - (300 - N / 10)\<bar> \<le> 1 / 100"
    unfolding N_def by (rule countdown_near)
  then show ?thesis using N by linarith
qed

lemma countdown_3001_negative: "countdown 3001 < 0"
proof -
  have "\<bar>countdown 3001 - (300 - rat_of_nat 3001 / 10)\<bar> \<le> 1 / 100"
    by (rule countdown_near) simp
  moreover have "300 - rat_of_nat 3001 / 10 = - (1 / 10)" by simp
  ultimately show ?thesis by linarith
qed

text \<open>
  The exact countdown. While \<open>x - 0.1\<close> stays in one binade, every tick takes the same
  whole number of spacings off the time, so the time after a run of ticks is known in
  closed form; ten such runs lead from 300 to the time after 2995 ticks, and the last
  five ticks are computed one by one (two of them round a tie to even). After 3000
  ticks the time is \<open>10661 / 2 ^ 55\<close>, just above zero.
\<close>

lemma countdown_0: "countdown 0 = 300"
  by (simp add: countdown_def)

lemma countdown_step:
  assumes "countdown n = x"
    and "2 powi e \<le> \<bar>x - fl (1 / 10)\<bar>" and "\<bar>x - fl (1 / 10)\<bar> < 2 powi (e + 1)"
    and "- 1022 \<le> e"
    and "rne ((x - fl (1 / 10)) / 2 powi (e - 52)) = k"
  shows "countdown (Suc n) = of_int k * 2 powi (e - 52)"
  using fl_binade [OF assms(2,3,4)] assms(1,5) by (simp add: countdown_Suc)

lemma countdown_segment:
  fixes K c e :: int
  assumes start: "countdown a = of_int K * 2 powi (e - 52)"
    and e: "- 1022 \<le> e"
    and c: "\<bar>fl (1 / 10) / 2 powi (e - 52) - of_int c\<bar> < 1 / 2" "0 \<le> c"
    and hi: "of_int K * 2 powi (e - 52) - fl (1 / 10) < 2 powi (e + 1)"
    and lo: "2 powi e \<le> of_int (K - int J * c) * 2 powi (e - 52) - fl (1 / 10)"
  shows "j \<le> Suc J \<Longrightarrow> countdown (a + j) = of_int (K - int j * c) * 2 powi (e - 52)"
proof (induction j)
  case 0
  then show ?case using start by simp
next
  case (Suc j)
  define q :: rat where "q = 2 powi (e - 52)"
  define d where "d = fl (1 / 10)"
  define y where "y = of_int (K - int j * c) * q - d"
  have q: "0 < q" by (simp add: q_def zero_less_power_int)
  have j: "j \<le> J" using Suc.prems by simp
  then have ih: "countdown (a + j) = of_int (K - int j * c) * q"
    unfolding q_def using Suc.IH by simp
  have "int j * c \<le> int J * c"
    using j c(2) by (intro mult_right_mono) auto
  then have "K - int J * c \<le> K - int j * c" by simp
  then have "rat_of_int (K - int J * c) \<le> rat_of_int (K - int j * c)"
    by (simp only: of_int_le_iff)
  then have "rat_of_int (K - int J * c) * q \<le> rat_of_int (K - int j * c) * q"
    using q by (intro mult_right_mono) auto
  then have ylo: "2 powi e \<le> y"
    using lo unfolding y_def q_def d_def by linarith
  have "0 \<le> int j * c" using c(2) by simp
  then have "K - int j * c \<le> K" by simp
  then have "rat_of_int (K - int j * c) \<le> rat_of_int K"
    by (simp only: of_int_le_iff)
  then have "rat_of_int (K - int j * c) * q \<le> rat_of_int K * q"
    using q by (intro mult_right_mono) auto
  then have yhi: "y < 2 powi (e + 1)"
    using hi unfolding y_def q_def d_def by linarith
  have "(0::rat) < 2 powi e" by (simp add: zero_less_power_int)
  then have ypos: "0 < y" using ylo by linarith
  have b: "2 powi e \<le> \<bar>y\<bar>" "\<bar>y\<bar> < 2 powi (e + 1)"
    using ylo yhi ypos by simp_all
  have f: "fl y = of_int (rne (y / q)) * q"
    unfolding q_def using b e by (rule fl_binade)
  have yq: "y / q = of_int (K - int j * c) - d / q"
    using q by (simp add: y_def diff_divide_distrib)
  have "y / q - of_int (K - int (Suc j) * c) = of_int c - d / q"
    unfolding yq by (simp add: algebra_simps)
  moreover have "\<bar>of_int c - d / q\<bar> < 1 / 2"
    using c(1) unfolding d_def q_def by (simp only: abs_minus_commute)
  ultimately have "\<bar>y / q - of_int (K - int (Suc j) * c)\<bar> < 1 / 2" by simp
  then have "rne (y / q) = K - int (Suc j) * c" by (rule rne_nearest)
  then have "fl y = of_int (K - int (Suc j) * c) * q" using f by simp
  moreover have "countdown (a + Suc j) = fl y"
    using ih by (simp add: countdown_Suc y_def d_def)
  ultimately show ?case by (simp only: q_def)
qed

lemma countdown_439: "countdown 439 = of_int 9010717691949524 * 2 powi (7 - 52)"
proof -
  have "countdown (0 + 439) = of_int (5277655813324800 - int 439 * 1759218604442) * 2 powi (8 - 52)"
    by (rule countdown_segment [where J = 438])
       (simp_all add: countdown_0 tenth_exact power_int_minus_divide)
  then show ?thesis by (simp add: power_int_minus_divide)
qed

lemma countdown_1719: "countdown 1719 = of_int 9014236129158568 * 2 powi (6 - 52)"
proof -
  have "countdown (439 + 1280) = of_int (9010717691949524 - int 1280 * 3518437208883) * 2 powi (7 - 52)"
    by (rule countdown_segment [where J = 1279])
       (simp_all add: countdown_439 tenth_exact power_int_minus_divide)
  then show ?thesis by (simp add: power_int_minus_divide)
qed

lemma countdown_2360: "countdown 2360 = of_int 9007199254741124 * 2 powi (5 - 52)"
proof -
  have "countdown (1719 + 641) = of_int (9014236129158568 - int 641 * 7036874417766) * 2 powi (6 - 52)"
    by (rule countdown_segment [where J = 640])
       (simp_all add: countdown_1719 tenth_exact power_int_minus_divide)
  then show ?thesis by (simp add: power_int_minus_divide)
qed

lemma countdown_2680: "countdown 2680 = of_int 9007199254741128 * 2 powi (4 - 52)"
proof -
  have "countdown (2360 + 320) = of_int (9007199254741124 - int 320 * 14073748835533) * 2 powi (5 - 52)"
    by (rule countdown_segment [where J = 319])
       (simp_all add: countdown_2360 tenth_exact power_int_minus_divide)
  then show ?thesis by (simp add: power_int_minus_divide)
qed

lemma countdown_2840: "countdown 2840 = of_int 9007199254741136 * 2 powi (3 - 52)"
proof -
  have "countdown (2680 + 160) = of_int (9007199254741128 - int 160 * 28147497671066) * 2 powi (4 - 52)"
    by (rule countdown_segment [where J = 159])
       (simp_all add: countdown_2680 tenth_exact power_int_minus_divide)
  then show ?thesis by (simp add: power_int_minus_divide)
qed

lemma countdown_2920: "countdown 2920 = of_int 9007199254741312 * 2 powi (2 - 52)"
proof -
  have "countdown (2840 + 80) = of_int (9007199254741136 - int 80 * 56294995342131) * 2 powi (3 - 52)"
    by (rule countdown_segment [where J = 79])
       (simp_all add: countdown_2840 tenth_exact power_int_minus_divide)
  then show ?thesis by (simp add: power_int_minus_divide)
qed

lemma countdown_2960: "countdown 2960 = of_int 9007199254741664 * 2 powi (1 - 52)"
proof -
  have "countdown (2920 + 40) = of_int (9007199254741312 - int 40 * 112589990684262) * 2 powi (2 - 52)"
    by (rule countdown_segment [where J = 39])
       (simp_all add: countdown_2920 tenth_exact power_int_minus_divide)
  then show ?thesis by (simp add: power_int_minus_divide)
qed

lemma countdown_2980: "countdown 2980 = of_int 9007199254742328 * 2 powi (0 - 52)"
proof -
  have "countdown (2960 + 20) = of_int (9007199254741664 - int 20 * 225179981368525) * 2 powi (1 - 52)"
    by (rule countdown_segment [where J = 19])
       (simp_all add: countdown_2960 tenth_exact power_int_minus_divide)
  then show ?thesis by (simp add: power_int_minus_divide)
qed

lemma countdown_2990: "countdown 2990 = of_int 9007199254743656 * 2 powi (- 1 - 52)"
proof -
  have "countdown (2980 + 10) = of_int (9007199254742328 - int 10 * 450359962737050) * 2 powi (0 - 52)"
    by (rule countdown_segment [where J = 9])
       (simp_all add: countdown_2980 tenth_exact power_int_minus_divide)
  then show ?thesis by (simp add: power_int_minus_divide)
qed

lemma countdown_2995: "countdown 2995 = 4503599627373161 / 9007199254740992"
proof -
  have "countdown (2990 + 5) = of_int (9007199254743656 - int 5 * 900719925474099) * 2 powi (- 1 - 52)"
    by (rule countdown_segment [where J = 4])
       (simp_all add: countdown_2990 tenth_exact power_int_minus_divide)
  then show ?thesis by (simp add: power_int_minus_divide)
qed

lemma countdown_2996: "countdown 2996 = 1801439850949531 / 4503599627370496"
proof -
  have "rne ((4503599627373161 / 9007199254740992 - fl (1 / 10)) / 2 powi (- 2 - 52)) = 7205759403798124"
    using rne_tie [of "(4503599627373161 / 9007199254740992 - fl (1 / 10)) / 2 powi (- 2 - 52)" 7205759403798123]
      by (simp add: tenth_exact power_int_minus_divide)
  then have "countdown (Suc 2995) = of_int 7205759403798124 * 2 powi (- 2 - 52)"
    by (intro countdown_step [OF countdown_2995])
       (simp_all add: tenth_exact power_int_minus_divide)
  then show ?thesis by (simp add: power_int_minus_divide)
qed

lemma countdown_2997: "countdown 2997 = 2702159776424963 / 9007199254740992"
proof -
  have "rne ((1801439850949531 / 4503599627370496 - fl (1 / 10)) / 2 powi (- 2 - 52)) = 5404319552849926"
    using rne_tie [of "(1801439850949531 / 4503599627370496 - fl (1 / 10)) / 2 powi (- 2 - 52)" 5404319552849925]
      by (simp add: tenth_exact power_int_minus_divide)
  then have "countdown (Suc 2996) = of_int 5404319552849926 * 2 powi (- 2 - 52)"
    by (intro countdown_step [OF countdown_2996])
       (simp_all add: tenth_exact power_int_minus_divide)
  then show ?thesis by (simp add: power_int_minus_divide)
qed

lemma countdown_2998: "countdown 2998 = 7205759403803455 / 36028797018963968"
proof -
  have "rne ((2702159776424963 / 9007199254740992 - fl (1 / 10)) / 2 powi (- 3 - 52)) = 7205759403803455"
    by (rule rne_nearest) (simp add: tenth_exact power_int_minus_divide)
  then have "countdown (Suc 2997) = of_int 7205759403803455 * 2 powi (- 3 - 52)"
    by (intro countdown_step [OF countdown_2997])
       (simp_all add: tenth_exact power_int_minus_divide)
  then show ?thesis by (simp add: power_int_minus_divide)
qed

lemma countdown_2999: "countdown 2999 = 1801439850953529 / 18014398509481984"
proof -
  have "rne ((7205759403803455 / 36028797018963968 - fl (1 / 10)) / 2 powi (- 4 - 52)) = 7205759403814116"
    by (rule rne_nearest) (simp add: tenth_exact power_int_minus_divide)
  then have "countdown (Suc 2998) = of_int 7205759403814116 * 2 powi (- 4 - 52)"
    by (intro countdown_step [OF countdown_2998])
       (simp_all add: tenth_exact power_int_minus_divide)
  then show ?thesis by (simp add: power_int_minus_divide)
qed

lemma countdown_3000: "countdown 3000 = 10661 / 36028797018963968"
proof -
  have "rne ((1801439850953529 / 18014398509481984 - fl (1 / 10)) / 2 powi (- 42 - 52)) = 5860946731859968"
    by (rule rne_nearest) (simp add: tenth_exact power_int_minus_divide)
  then have "countdown (Suc 2999) = of_int 5860946731859968 * 2 powi (- 42 - 52)"
    by (intro countdown_step [OF countdown_2999])
       (simp_all add: tenth_exact power_int_minus_divide)
  then show ?thesis by (simp add: power_int_minus_divide)
qed

lemma countdown_3000_positive: "0 < countdown 3000"
  by (simp add: countdown_3000)

lemma tick_running_player:
  assumes "\<not> isPaused t" and "activeTimer t = Some Player" and "playerTime t = Num p"
    and "\<bar>p - fl (1 / 10)\<bar> < 512" and "0 < fl (p - fl (1 / 10))" and "onTickCallback t"
  shows "tick t =
           t\<lparr>playerTime := Num (fl (p - fl (1 / 10))),
              calls := calls t @ [TickCall (Num (fl (p - fl (1 / 10)))) (opponentTime t)
                                    (Some Player)]\<rparr>"
proof -
  have "js_sub (playerTime t) tenth = Num (fl (p - fl (1 / 10)))"
    using assms(3,4) by (simp add: tenth_value dbl_small)
  then show ?thesis
    using assms(1,2,5,6) by (simp add: tick_def tickCallback_def Let_def)
qed

lemma tick_flag_player:
  assumes "\<not> isPaused t" and "activeTimer t = Some Player" and "playerTime t = Num p"
    and "\<bar>p - fl (1 / 10)\<bar> < 512" and "fl (p - fl (1 / 10)) \<le> 0" and "onTimeoutCallback t"
  shows "tick t =
           t\<lparr>playerTime := Num 0, intervalId := False, isPaused := True,
              calls := calls t @ [TimeoutCall Player]\<rparr>"
proof -
  have "js_sub (playerTime t) tenth = Num (fl (p - fl (1 / 10)))"
    using assms(3,4) by (simp add: tenth_value dbl_small)
  then show ?thesis
    using assms(1,2,5,6)
    by (cases "intervalId t") (simp_all add: tick_def handleTimeout_def stopInterval_def Let_def)
qed

lemma blitz_tick_calls_Suc:
  "blitz_tick_calls (Suc n) =
     blitz_tick_calls n @ [TickCall (Num (countdown (Suc n))) (Num 300) (Some Player)]"
  by (simp add: blitz_tick_calls_def)

text \<open>As long as the countdown stays positive the clock runs and reports every tick.\<close>

lemma blitz_running:
  assumes "n \<le> 3010" and "\<forall>k. 1 \<le> k \<and> k \<le> n \<longrightarrow> 0 < countdown k"
  shows "(tick ^^ n) blitz_started =
           blitz_started\<lparr>playerTime := Num (countdown n), calls := blitz_tick_calls n\<rparr>"
  using assms
proof (induction n)
  case 0
  then show ?case by (simp add: blitz_tick_calls_def blitz_started_fields countdown_def)
next
  case (Suc n)
  define t where "t = blitz_started\<lparr>playerTime := Num (countdown n),
                               calls := blitz_tick_calls n\<rparr>"
  have fields: "\<not> isPaused t" "activeTimer t = Some Player"
      "playerTime t = Num (countdown n)" "onTickCallback t"
      "opponentTime t = Num 300" "calls t = blitz_tick_calls n"
    by (simp_all add: t_def blitz_started_fields)
  have range: "\<bar>countdown n - fl (1 / 10)\<bar> < 512"
    using Suc.prems(1) by (intro countdown_in_range) simp
  have pos: "0 < fl (countdown n - fl (1 / 10))"
    using Suc.prems(2) by (simp add: countdown_Suc [symmetric])
  have "(tick ^^ Suc n) blitz_started = tick t"
    using Suc by (simp add: t_def)
  also have "\<dots> = t\<lparr>playerTime := Num (fl (countdown n - fl (1 / 10))),
              calls := calls t @ [TickCall (Num (fl (countdown n - fl (1 / 10))))
                                    (opponentTime t) (Some Player)]\<rparr>"
    using fields(1,2,3) range pos fields(4) by (rule tick_running_player)
  also have "\<dots> = blitz_started\<lparr>playerTime := Num (countdown (Suc n)),
                          calls := blitz_tick_calls (Suc n)\<rparr>"
    unfolding fields(5,6) blitz_tick_calls_Suc countdown_Suc by (simp add: t_def)
  finally show ?case .
qed

text \<open>The tick after \<open>n\<close> running ticks, when it brings the countdown to zero or below.\<close>

lemma blitz_flag:
  assumes "n < 3010" and "\<forall>k. 1 \<le> k \<and> k \<le> n \<longrightarrow> 0 < countdown k"
    and "countdown (Suc n) \<le> 0"
  shows "(tick ^^ Suc n) blitz_started =
     blitz_started\<lparr>playerTime := Num 0, intervalId := False, isPaused := True,
                    calls := blitz_tick_calls n @ [TimeoutCall Player]\<rparr>"
proof -
  define t where "t = blitz_started\<lparr>playerTime := Num (countdown n),
                               calls := blitz_tick_calls n\<rparr>"
  have fields: "\<not> isPaused t" "activeTimer t = Some Player"
      "playerTime t = Num (countdown n)" "onTimeoutCallback t"
    by (simp_all add: t_def blitz_started_fields)
  have range: "\<bar>countdown n - fl (1 / 10)\<bar> < 512"
    using assms(1) by (intro countdown_in_range) simp
  have le: "fl (countdown n - fl (1 / 10)) \<le> 0"
    using assms(3) by (simp add: countdown_Suc)
  have "(tick ^^ Suc n) blitz_started = tick t"
    using blitz_running [of n] assms(1,2) by (simp add: t_def)
  also have "\<dots> = t\<lparr>playerTime := Num 0, intervalId := False, isPaused := True,
              calls := calls t @ [TimeoutCall Player]\<rparr>"
    using fields(1,2,3) range le fields(4) by (rule tick_flag_player)
  also have "\<dots> = blitz_started\<lparr>playerTime := Num 0, intervalId := False, isPaused := True,
                    calls := blitz_tick_calls n @ [TimeoutCall Player]\<rparr>"
    by (simp add: t_def)
  finally show ?thesis .
qed

lemma ticks_idle: "isPaused t \<Longrightarrow> (tick ^^ n) t = t"
  by (induction n) (simp_all add: tick_idle)

lemma blitz_after_flag:
  assumes "Suc n \<le> 3010" and "\<forall>k. 1 \<le> k \<and> k \<le> n \<longrightarrow> 0 < countdown k"
    and "countdown (Suc n) \<le> 0"
  shows "(tick ^^ 3010) blitz_started =
     blitz_started\<lparr>playerTime := Num 0, intervalId := False, isPaused := True,
                    calls := blitz_tick_calls n @ [TimeoutCall Player]\<rparr>"
proof -
  have "n < 3010" using assms(1) by simp
  then have flag: "(tick ^^ Suc n) blitz_started =
     blitz_started\<lparr>playerTime := Num 0, intervalId := False, isPaused := True,
                    calls := blitz_tick_calls n @ [TimeoutCall Player]\<rparr>"
    using assms(2,3) by (rule blitz_flag)
  have "(3010::nat) = (3010 - Suc n) + Suc n" using assms(1) by simp
  then have "(tick ^^ 3010) blitz_started =
      (tick ^^ (3010 - Suc n)) ((tick ^^ Suc n) blitz_started)"
    by (metis funpow_add o_apply)
  also have "\<dots> = (tick ^^ Suc n) blitz_started"
    by (rule ticks_idle) (simp only: flag, simp)
  finally show ?thesis
    by (simp only: flag)
qed

text \<open>
  Claim C4. Blitz preset, \<open>start('player')\<close>, then 3010 ticks (301 seconds) and nothing
  else. Ten subtractions of the double 0.1 take off slightly less than 1, so after 3000
  ticks the player still has \<open>10661 / 2 ^ 55\<close> seconds and every tick so far called the
  per-tick callback. Tick 3001 brings the time below zero: it sets the time to 0, stops
  the clock and calls the timeout callback with \<open>'player'\<close>, and no per-tick callback.
  The nine later ticks do nothing. So the timeout callback has been called exactly
  once, and the player's time is 0.
\<close>

theorem blitz_flag_falls_once:
  "(tick ^^ 3000) blitz_started =
      blitz_started\<lparr>playerTime := Num (10661 / 36028797018963968),
                     calls := blitz_tick_calls 3000\<rparr>
   \<and> (tick ^^ 3001) blitz_started =
      blitz_started\<lparr>playerTime := Num 0, intervalId := False, isPaused := True,
                     calls := blitz_tick_calls 3000 @ [TimeoutCall Player]\<rparr>
   \<and> (tick ^^ 3010) blitz_started = (tick ^^ 3001) blitz_started
   \<and> playerTime ((tick ^^ 3010) blitz_started) = Num 0
   \<and> opponentTime ((tick ^^ 3010) blitz_started) = Num 300
   \<and> filter (\<lambda>e. case e of TimeoutCall s \<Rightarrow> True | TickCall p q a \<Rightarrow> False)
        (calls ((tick ^^ 3010) blitz_started)) = [TimeoutCall Player]
   \<and> length (filter (\<lambda>e. case e of TimeoutCall s \<Rightarrow> False | TickCall p q a \<Rightarrow> True)
        (calls ((tick ^^ 3010) blitz_started))) = 3000"
proof -
  have f1: "filter (\<lambda>e. case e of TimeoutCall s \<Rightarrow> True | TickCall p q a \<Rightarrow> False)
              (blitz_tick_calls n) = []" for n
    by (simp add: blitz_tick_calls_def filter_empty_conv)
  have f2: "filter (\<lambda>e. case e of TimeoutCall s \<Rightarrow> False | TickCall p q a \<Rightarrow> True)
              (blitz_tick_calls n) = blitz_tick_calls n" for n
    by (simp add: blitz_tick_calls_def filter_id_conv)
  have l: "length (blitz_tick_calls n) = n" for n
    by (simp add: blitz_tick_calls_def)
  have pos: "\<forall>k. 1 \<le> k \<and> k \<le> 3000 \<longrightarrow> 0 < countdown k"
  proof (intro allI impI)
    fix k :: nat
    assume "1 \<le> k \<and> k \<le> 3000"
    then have "k \<le> 2999 \<or> k = 3000" by auto
    then show "0 < countdown k"
      using countdown_positive countdown_3000_positive by auto
  qed
  have neg: "countdown (Suc 3000) \<le> 0"
    using countdown_3001_negative by simp
  have a: "(tick ^^ 3000) blitz_started =
      blitz_started\<lparr>playerTime := Num (10661 / 36028797018963968),
                     calls := blitz_tick_calls 3000\<rparr>"
    using blitz_running [of 3000] pos by (simp only: countdown_3000)
  have "(tick ^^ Suc 3000) blitz_started =
      blitz_started\<lparr>playerTime := Num 0, intervalId := False, isPaused := True,
                     calls := blitz_tick_calls 3000 @ [TimeoutCall Player]\<rparr>"
    using _ pos neg by (rule blitz_flag) simp
  then have b: "(tick ^^ 3001) blitz_started =
      blitz_started\<lparr>playerTime := Num 0, intervalId := False, isPaused := True,
                     calls := blitz_tick_calls 3000 @ [TimeoutCall Player]\<rparr>"
    by simp
  have c: "(tick ^^ 3010) blitz_started =
      blitz_started\<lparr>playerTime := Num 0, intervalId := False, isPaused := True,
                     calls := blitz_tick_calls 3000 @ [TimeoutCall Player]\<rparr>"
    using _ pos neg by (rule blitz_after_flag) simp
  show ?thesis
    unfolding c unfolding b
    using a by (simp add: f1 f2 l blitz_started_fields)
qed

subsection \<open>Switching with no active side\<close>

text \<open>
  Claim C6 says that \<open>switchTimer\<close> with no active side, under a finite preset, changes
  neither the remaining times nor the active side. After \<open>init('blitz')\<close> it makes the
  player the active side.
\<close>

theorem switch_without_active_side_counterexample:
  "activeTimer (init ''blitz'' new_TimerManager) = None
   \<and> currentTimeControl (init ''blitz'' new_TimerManager) \<noteq> ''unlimited''
   \<and> activeTimer (switchTimer (init ''blitz'' new_TimerManager)) = Some Player
   \<and> switchTimer (init ''blitz'' new_TimerManager) \<noteq> init ''blitz'' new_TimerManager"
proof -
  have a: "activeTimer (init ''blitz'' new_TimerManager) = None"
      "currentTimeControl (init ''blitz'' new_TimerManager) \<noteq> ''unlimited''"
    by (simp_all add: init_def stopInterval_def Let_def)
  then have b: "activeTimer (switchTimer (init ''blitz'' new_TimerManager)) = Some Player"
    by (simp add: switchTimer_def Let_def)
  have "switchTimer (init ''blitz'' new_TimerManager) \<noteq> init ''blitz'' new_TimerManager"
  proof
    assume "switchTimer (init ''blitz'' new_TimerManager) = init ''blitz'' new_TimerManager"
    then have "activeTimer (switchTimer (init ''blitz'' new_TimerManager)) = None"
      using a(1) by simp
    then show False using b by simp
  qed
  with a b show ?thesis by simp
qed

text \<open>
  Claim C6, as the code has it: with no active side and a preset other than unlimited,
  \<open>switchTimer\<close> leaves both remaining times, the paused flag and the interval as they
  are, and sets the active side to the player.
\<close>

theorem switch_without_active_side:
  assumes "activeTimer t = None" and "currentTimeControl t \<noteq> ''unlimited''"
  shows "switchTimer t = t\<lparr>activeTimer := Some Player\<rparr>
         \<and> playerTime (switchTimer t) = playerTime t
         \<and> opponentTime (switchTimer t) = opponentTime t
         \<and> isPaused (switchTimer t) = isPaused t
         \<and> intervalId (switchTimer t) = intervalId t
         \<and> activeTimer (switchTimer t) = Some Player"
  using assms by (simp add: switchTimer_def Let_def)

theorem switch_without_active_side_witness:
  "activeTimer (init ''blitz'' new_TimerManager) = None
   \<and> currentTimeControl (init ''blitz'' new_TimerManager) \<noteq> ''unlimited''
   \<and> switchTimer (init ''blitz'' new_TimerManager) =
       (init ''blitz'' new_TimerManager)\<lparr>activeTimer := Some Player\<rparr>
   \<and> playerTime (switchTimer (init ''blitz'' new_TimerManager)) = Num 300
   \<and> opponentTime (switchTimer (init ''blitz'' new_TimerManager)) = Num 300
   \<and> isPaused (switchTimer (init ''blitz'' new_TimerManager))"
proof -
  have a: "activeTimer (init ''blitz'' new_TimerManager) = None"
      "currentTimeControl (init ''blitz'' new_TimerManager) \<noteq> ''unlimited''"
    by (simp_all add: init_def stopInterval_def Let_def)
  have f: "playerTime (init ''blitz'' new_TimerManager) = Num 300"
      "opponentTime (init ''blitz'' new_TimerManager) = Num 300"
      "isPaused (init ''blitz'' new_TimerManager)"
    by (simp_all add: init_def stopInterval_def Let_def TIME_CONTROLS_def tc_blitz_def
        control_time_def new_TimerManager_def)
  show ?thesis
    using switch_without_active_side [OF a] a f by simp
qed

end
